theory Spec2Isabelle
  imports Complex_Main "HOL-Library.Log_Nat"
begin

section \<open>NYC Property Analytics dashboard (src/App.js): data model\<close>

text \<open>
  The rows of a response are JSON objects. A field that the code reads with
  \<^verbatim>\<open>r.count || 0\<close> is modelled as an optional number: \<open>None\<close> stands for an absent
  (\<^verbatim>\<open>undefined\<close> or \<^verbatim>\<open>null\<close>) field. A number of a row is a finite double, given by
  the rational it denotes. The arithmetic of the source is the arithmetic of doubles and
  is modelled as such below (\<open>round64\<close>); the sign of zero is not distinguished.
\<close>

record row =
  borough :: "string option"
  neighborhood :: "string option"
  count :: "rat option"
  median_value :: "rat option"
  avg_value :: "rat option"

text \<open>\<^verbatim>\<open>x || 0\<close> on a number-or-missing value: a missing value and \<open>0\<close> both give \<open>0\<close>.\<close>

definition or_zero :: "rat option \<Rightarrow> rat" where
  "or_zero x = (case x of None \<Rightarrow> 0 | Some v \<Rightarrow> (if v = 0 then 0 else v))"

text \<open>\<^verbatim>\<open>Math.round\<close>: the nearest integer, a tie going towards \<open>+\<infinity>\<close>.\<close>

definition Math_round :: "rat \<Rightarrow> int" where
  "Math_round x = \<lfloor>x + 1 / 2\<rfloor>"

section \<open>JavaScript numbers\<close>

text \<open>
  A value of type Number: a finite double, given by the rational it denotes, an infinity
  or NaN.
\<close>

datatype number = Fin rat | PosInf | NegInf | NaN

text \<open>
  The binary exponent of a positive rational: \<open>2 powi expo x \<le> x < 2 powi (expo x + 1)\<close>.
\<close>

definition expo :: "rat \<Rightarrow> int" where
  "expo x = (if 1 \<le> x then bitlen \<lfloor>x\<rfloor> - 1 else - bitlen (\<lceil>1 / x\<rceil> - 1))"

text \<open>Rounding to the nearest integer, a tie going to the even one.\<close>

definition rne :: "rat \<Rightarrow> int" where
  "rne y = (let f = \<lfloor>y\<rfloor>; d = y - of_int f
            in if d < 1 / 2 then f else if 1 / 2 < d then f + 1
               else if even f then f else f + 1)"

text \<open>
  The spacing of the doubles at a positive \<open>x\<close>: 53 significant bits, the exponent not
  below that of the smallest normal double, so that the subnormal doubles are the
  multiples of \<open>2 powi (- 1074)\<close>. \<open>nearest x\<close> is the multiple of the spacing nearest to
  \<open>x\<close>, a tie going to the even significand.
\<close>

definition ulp :: "rat \<Rightarrow> rat" where
  "ulp x = 2 powi (max (expo x) (- 1022) - 52)"

definition nearest :: "rat \<Rightarrow> rat" where
  "nearest x = of_int (rne (x / ulp x)) * ulp x"

text \<open>
  The double that an exact result \<open>x\<close> is rounded to (IEEE 754 binary64, round to
  nearest, ties to even): a result that rounds to \<open>2 ^ 1024\<close> or beyond is an infinity.
\<close>

definition round64 :: "rat \<Rightarrow> number" where
  "round64 x =
     (if x = 0 then Fin 0
      else if 0 < x then (if 2 ^ 1024 \<le> nearest x then PosInf else Fin (nearest x))
      else (if 2 ^ 1024 \<le> nearest (- x) then NegInf else Fin (- nearest (- x))))"

text \<open>\<^verbatim>\<open>a + b\<close> on numbers.\<close>

fun js_add :: "number \<Rightarrow> number \<Rightarrow> number" where
  "js_add (Fin a) (Fin b) = round64 (a + b)"
| "js_add NaN _ = NaN"
| "js_add _ NaN = NaN"
| "js_add PosInf NegInf = NaN"
| "js_add NegInf PosInf = NaN"
| "js_add PosInf _ = PosInf"
| "js_add _ PosInf = PosInf"
| "js_add NegInf _ = NegInf"
| "js_add _ NegInf = NegInf"

text \<open>
  \<^verbatim>\<open>a / d\<close> and \<^verbatim>\<open>a * m\<close> for a finite second operand. The source divides by
  \<^verbatim>\<open>data.length\<close> of a non-empty array and by a \<^verbatim>\<open>max\<close> that is positive, and it
  multiplies by \<open>100\<close>; a zero divisor is read as \<open>+0\<close>.
\<close>

definition js_div :: "number \<Rightarrow> rat \<Rightarrow> number" where
  "js_div a d =
     (case a of
        Fin x \<Rightarrow> (if d = 0 then (if x = 0 then NaN else if 0 < x then PosInf else NegInf)
                  else round64 (x / d))
      | PosInf \<Rightarrow> (if 0 \<le> d then PosInf else NegInf)
      | NegInf \<Rightarrow> (if 0 \<le> d then NegInf else PosInf)
      | NaN \<Rightarrow> NaN)"

definition js_mul :: "number \<Rightarrow> rat \<Rightarrow> number" where
  "js_mul a m =
     (case a of
        Fin x \<Rightarrow> round64 (x * m)
      | PosInf \<Rightarrow> (if m = 0 then NaN else if 0 < m then PosInf else NegInf)
      | NegInf \<Rightarrow> (if m = 0 then NaN else if 0 < m then NegInf else PosInf)
      | NaN \<Rightarrow> NaN)"

text \<open>
  \<^verbatim>\<open>Math.round\<close> on a number (the nearest integer to a double is a double), and
  \<^verbatim>\<open>Math.max(a, b)\<close>.
\<close>

definition js_round :: "number \<Rightarrow> number" where
  "js_round a = (case a of Fin x \<Rightarrow> Fin (of_int (Math_round x)) | _ \<Rightarrow> a)"

fun js_max :: "number \<Rightarrow> number \<Rightarrow> number" where
  "js_max NaN _ = NaN"
| "js_max _ NaN = NaN"
| "js_max PosInf _ = PosInf"
| "js_max _ PosInf = PosInf"
| "js_max NegInf b = b"
| "js_max a NegInf = a"
| "js_max (Fin a) (Fin b) = Fin (max a b)"

section \<open>Sorting\<close>

text \<open>
  \<^verbatim>\<open>Array.prototype.sort(cmp)\<close> is a stable sort: \<open>a\<close> comes before \<open>b\<close> when
  \<open>cmp a b < 0\<close>, and elements that compare equal keep their input order. Every stable
  sort returns the same array for a consistent comparator; the model is the stable
  insertion sort.
\<close>

fun js_insert :: "('a \<Rightarrow> 'a \<Rightarrow> rat) \<Rightarrow> 'a \<Rightarrow> 'a list \<Rightarrow> 'a list" where
  "js_insert cmp x [] = [x]"
| "js_insert cmp x (y # ys) = (if cmp x y \<le> 0 then x # y # ys else y # js_insert cmp x ys)"

definition js_sort :: "('a \<Rightarrow> 'a \<Rightarrow> rat) \<Rightarrow> 'a list \<Rightarrow> 'a list" where
  "js_sort cmp xs = foldr (js_insert cmp) xs []"

text \<open>The two comparators of the source, \<^verbatim>\<open>(a, b) => (b.f || 0) - (a.f || 0)\<close>.\<close>

definition by_median_desc :: "row \<Rightarrow> row \<Rightarrow> rat" where
  "by_median_desc a b = or_zero (median_value b) - or_zero (median_value a)"

definition by_count_desc :: "row \<Rightarrow> row \<Rightarrow> rat" where
  "by_count_desc a b = or_zero (count b) - or_zero (count a)"

section \<open>Metrics: the \<^verbatim>\<open>kpis\<close> memo and \<^verbatim>\<open>chartData\<close>\<close>

text \<open>The placeholder label is the em dash U+2014, here as its three UTF-8 bytes.\<close>

definition em_dash :: string where
  "em_dash = [CHR 0xE2, CHR 0x80, CHR 0x94]"

record kpi_summary =
  totalSales :: number
  median :: number
  topLabel :: "string option"
  topValue :: rat
  topVolumeLabel :: "string option"
  topVolumeCount :: rat

text \<open>
  \<^verbatim>\<open>sorted[0]?.borough\<close> and \<^verbatim>\<open>sorted[0]?.median_value || 0\<close>: the optional chaining
  gives \<^verbatim>\<open>undefined\<close> on an empty array.
\<close>

definition first_label :: "bool \<Rightarrow> row list \<Rightarrow> string option" where
  "first_label isAll arr =
     (case arr of [] \<Rightarrow> None | r # _ \<Rightarrow> (if isAll then borough r else neighborhood r))"

definition first_number :: "(row \<Rightarrow> rat option) \<Rightarrow> row list \<Rightarrow> rat" where
  "first_number field arr = (case arr of [] \<Rightarrow> 0 | r # _ \<Rightarrow> or_zero (field r))"

text \<open>
  The memo \<^verbatim>\<open>kpis\<close> as a function of \<^verbatim>\<open>data\<close> and \<^verbatim>\<open>isAll\<close>. The state always holds an
  array, so the guard \<^verbatim>\<open>!data\<close> is the emptiness test alone. \<^verbatim>\<open>reduce\<close> is a left fold
  whose every addition rounds, and the division by \<^verbatim>\<open>data.length\<close> rounds once more.
\<close>

definition kpis :: "row list \<Rightarrow> bool \<Rightarrow> kpi_summary" where
  "kpis data isAll =
     (if data = [] then
        \<lparr>totalSales = Fin 0, median = Fin 0, topLabel = Some em_dash, topValue = 0,
         topVolumeLabel = Some em_dash, topVolumeCount = 0\<rparr>
      else
        let total = foldl (\<lambda>sum r. js_add sum (Fin (or_zero (count r)))) (Fin 0) data;
            med = js_round
                    (js_div (foldl (\<lambda>sum r. js_add sum (Fin (or_zero (median_value r))))
                               (Fin 0) data)
                       (of_nat (length data)));
            sortedByMedian = js_sort by_median_desc data;
            sortedByCount = js_sort by_count_desc data
        in \<lparr>totalSales = total, median = med,
            topLabel = first_label isAll sortedByMedian,
            topValue = first_number median_value sortedByMedian,
            topVolumeLabel = first_label isAll sortedByCount,
            topVolumeCount = first_number count sortedByCount\<rparr>)"

definition chartData :: "bool \<Rightarrow> row list \<Rightarrow> row list" where
  "chartData isAll data = (if isAll then data else take 10 (js_sort by_median_desc data))"

text \<open>A neighborhood row with a name and a median only, for the examples.\<close>

definition nbhd :: "string \<Rightarrow> rat \<Rightarrow> row" where
  "nbhd name m = \<lparr>borough = None, neighborhood = Some name, count = None,
                   median_value = Some m, avg_value = None\<rparr>"

section \<open>The bar chart: \<^verbatim>\<open>BarChart\<close>\<close>

text \<open>
  \<^verbatim>\<open>Math.max(...values)\<close> on a non-empty argument list, first argument \<open>x\<close>. The empty
  call (\<open>-Infinity\<close> in JavaScript) is never made: \<^verbatim>\<open>BarChart\<close> returns before it.
\<close>

definition Math_max :: "rat \<Rightarrow> rat list \<Rightarrow> rat" where
  "Math_max x xs = fold max xs x"

record bar =
  bar_label :: "string option"
  pct :: number
  val :: rat

text \<open>
  Spreading an array into the arguments of a call fails with a \<^verbatim>\<open>RangeError\<close> when the
  array has more elements than the engine accepts as arguments. The language sets no
  such bound, so the bound of the engine is a parameter, \<open>argLimit\<close>.
\<close>

datatype js_error = RangeError

text \<open>
  The component returns \<^verbatim>\<open>null\<close> (\<open>None\<close>) for an empty collection, else one bar per
  row. Both \<^verbatim>\<open>Number(d[valueKey]) || 0\<close> and \<^verbatim>\<open>Number(row[valueKey] || 0)\<close> read a
  number-or-missing field as \<open>or_zero\<close> does. The keys are passed as field accessors.
  The \<^verbatim>\<open>|| [0]\<close> after \<^verbatim>\<open>data.map(...)\<close> never applies: an array is truthy. The
  percentage is computed in doubles: the quotient is rounded, then the product.
\<close>

definition BarChart ::
  "nat \<Rightarrow> row list \<Rightarrow> (row \<Rightarrow> string option) \<Rightarrow> (row \<Rightarrow> rat option)
     \<Rightarrow> js_error + bar list option" where
  "BarChart argLimit data labelKey valueKey =
     (case data of
        [] \<Rightarrow> Inr None
      | d # ds \<Rightarrow>
          if argLimit < length data then Inl RangeError
          else
            let mx = Math_max (or_zero (valueKey d)) (map (\<lambda>d. or_zero (valueKey d)) ds)
            in Inr (Some (map (\<lambda>r.
                        let v = or_zero (valueKey r);
                            p = (if mx > 0
                                 then js_max (Fin 4) (js_round (js_mul (js_div (Fin v) mx) 100))
                                 else Fin 0)
                        in \<lparr>bar_label = labelKey r, pct = p, val = v\<rparr>) data)))"

text \<open>
  The percentages of the bars of a rendered chart, for the examples.
\<close>

definition bar_pcts :: "js_error + bar list option \<Rightarrow> number list" where
  "bar_pcts res = (case res of Inr (Some bars) \<Rightarrow> map pct bars | _ \<Rightarrow> [])"

section \<open>The animated number: \<^verbatim>\<open>AnimatedNumber\<close>\<close>

text \<open>
  The state of one slot: the ref \<^verbatim>\<open>previous.current\<close>, the state \<^verbatim>\<open>hasAnimated\<close>, and
  the dependency array \<^verbatim>\<open>[value, hasAnimated]\<close> of the last run of the effect (\<open>None\<close>
  before the first render). A render pass computes the \<^verbatim>\<open>from\<close> and \<^verbatim>\<open>to\<close> numbers it
  hands to \<^verbatim>\<open>useSpring\<close>; the effect runs after it when a dependency has changed.
  The \<^verbatim>\<open>value\<close> prop is a finite number or \<^verbatim>\<open>undefined\<close>.
\<close>

record slot =
  previous :: rat
  hasAnimated :: bool
  deps :: "(rat option \<times> bool) option"

record spring_props =
  from_number :: rat
  to_number :: rat

definition slot_mount :: slot where
  "slot_mount = \<lparr>previous = 0, hasAnimated = False, deps = None\<rparr>"

definition fromValue :: "slot \<Rightarrow> rat" where
  "fromValue st = (if hasAnimated st then previous st else 0)"

definition effect :: "slot \<Rightarrow> rat option \<Rightarrow> slot" where
  "effect st v =
     (if deps st = Some (v, hasAnimated st) then st
      else \<lparr>previous = or_zero v,
            hasAnimated = (if \<not> hasAnimated st \<and> or_zero v > 0 then True else hasAnimated st),
            deps = Some (v, hasAnimated st)\<rparr>)"

definition render :: "slot \<Rightarrow> rat option \<Rightarrow> spring_props \<times> slot" where
  "render st v = (\<lparr>from_number = fromValue st, to_number = or_zero v\<rparr>, effect st v)"

text \<open>
  One value of the \<^verbatim>\<open>value\<close> prop: a render pass, and a second one with the same prop
  when the effect has called \<^verbatim>\<open>setHasAnimated(true)\<close>.
\<close>

definition AnimatedNumber :: "slot \<Rightarrow> rat option \<Rightarrow> spring_props list \<times> slot" where
  "AnimatedNumber st v =
     (let (p1, st1) = render st v
      in if hasAnimated st1 \<noteq> hasAnimated st
         then (let (p2, st2) = render st1 v in ([p1, p2], st2))
         else ([p1], st1))"

text \<open>The successive values of the prop over the life of a slot.\<close>

fun animate :: "slot \<Rightarrow> rat option list \<Rightarrow> spring_props list \<times> slot" where
  "animate st [] = ([], st)"
| "animate st (v # vs) =
     (let (ps, st1) = AnimatedNumber st v;
          (qs, st2) = animate st1 vs
      in (ps @ qs, st2))"

text \<open>
  What every state of a slot between two values of the prop satisfies: before the first
  render it is the initial state; afterwards the effect has last run for the \<^verbatim>\<open>value\<close>
  and \<^verbatim>\<open>hasAnimated\<close> of the last render, the ref holds that value, and a positive value
  has set the flag.
\<close>

definition slot_inv :: "slot \<Rightarrow> bool" where
  "slot_inv st =
     (case deps st of
        None \<Rightarrow> st = slot_mount
      | Some (u, h) \<Rightarrow> h = hasAnimated st \<and> previous st = or_zero u
                        \<and> (0 < or_zero u \<longrightarrow> hasAnimated st))"

section \<open>The fetch coordinator: the \<^verbatim>\<open>useEffect\<close> of \<^verbatim>\<open>App\<close>\<close>

text \<open>
  A response body is an object that may lack either key, or no object at all
  (\<^verbatim>\<open>res?.boroughs || []\<close>). A fetch settles with a response or with a rejection.
\<close>

record response =
  boroughs :: "row list option"
  neighborhoods :: "row list option"

datatype fetch_error = AxiosError

definition boroughs_or_empty :: "response option \<Rightarrow> row list" where
  "boroughs_or_empty res =
     (case res of None \<Rightarrow> [] | Some r \<Rightarrow> (case boroughs r of None \<Rightarrow> [] | Some rs \<Rightarrow> rs))"

definition neighborhoods_or_empty :: "response option \<Rightarrow> row list" where
  "neighborhoods_or_empty res =
     (case res of None \<Rightarrow> [] | Some r \<Rightarrow> (case neighborhoods r of None \<Rightarrow> [] | Some rs \<Rightarrow> rs))"

text \<open>
  Each run of the effect has its own closure: the \<^verbatim>\<open>months\<close> and \<^verbatim>\<open>selectedBorough\<close> it
  saw and its own \<^verbatim>\<open>cancel\<close> variable, which its cleanup sets. The runs are kept in the
  order they were started; the index of a run identifies its request.
\<close>

record effect_run =
  run_months :: nat
  run_borough :: string
  cancel :: bool

record app_state =
  salesData :: "row list"
  neighborhoodData :: "row list"
  months :: nat
  selectedBorough :: string
  loadingNYC :: bool
  runs :: "effect_run list"

definition isAll :: "app_state \<Rightarrow> bool" where
  "isAll s = (selectedBorough s = ''All'')"

definition data :: "app_state \<Rightarrow> row list" where
  "data s = (if isAll s then salesData s else neighborhoodData s)"

definition current :: "app_state \<Rightarrow> nat" where
  "current s = length (runs s) - 1"

text \<open>The cleanup of the latest run, \<^verbatim>\<open>() => (cancel = true)\<close>.\<close>

definition cleanup :: "app_state \<Rightarrow> app_state" where
  "cleanup s =
     (if runs s = [] then s
      else s\<lparr>runs := (runs s)[current s := (runs s ! current s)\<lparr>cancel := True\<rparr>]\<rparr>)"

text \<open>
  A run of the effect after a change of \<^verbatim>\<open>[months, selectedBorough]\<close>: the cleanup of the
  run before, a fresh \<^verbatim>\<open>cancel = false\<close>, and \<^verbatim>\<open>load()\<close> up to its \<^verbatim>\<open>await\<close>, which
  sets the loading flag and issues the request.
\<close>

definition useEffect_run :: "app_state \<Rightarrow> app_state" where
  "useEffect_run s =
     (let s1 = cleanup s;
          s2 = s1\<lparr>runs := runs s1 @
                 [\<lparr>run_months = months s1, run_borough = selectedBorough s1, cancel = False\<rparr>]\<rparr>
      in s2\<lparr>loadingNYC := True\<rparr>)"

text \<open>
  \<^verbatim>\<open>load()\<close> of run \<open>i\<close> from its \<^verbatim>\<open>await\<close> on, when the fetch has settled with \<open>result\<close>.
  The first component is how the promise of \<^verbatim>\<open>load()\<close> settles: \<open>Inr ()\<close> fulfilled,
  \<open>Inl e\<close> rejected with \<open>e\<close> (the \<^verbatim>\<open>try\<close> has a \<^verbatim>\<open>finally\<close> and no \<^verbatim>\<open>catch\<close>). The
  \<^verbatim>\<open>cancel\<close> variable is read when the function resumes.
\<close>

definition load_resume ::
  "nat \<Rightarrow> fetch_error + response option \<Rightarrow> app_state \<Rightarrow> (fetch_error + unit) \<times> app_state" where
  "load_resume i result s =
     (if i < length (runs s) then
        let c = runs s ! i;
            fin = (\<lambda>t. if \<not> cancel c then t\<lparr>loadingNYC := False\<rparr> else t)
        in case result of
             Inl e \<Rightarrow> (Inl e, fin s)
           | Inr res \<Rightarrow>
               (Inr (),
                fin (if run_borough c = ''All''
                     then (if \<not> cancel c
                           then s\<lparr>salesData := boroughs_or_empty res, neighborhoodData := []\<rparr>
                           else s)
                     else (if \<not> cancel c
                           then s\<lparr>neighborhoodData := neighborhoods_or_empty res\<rparr>
                           else s)))
      else (Inr (), s))"

text \<open>
  The events of the component: the two setters of the selection (a setter called with the
  value the state already has causes no render and no effect), and the settling of the
  fetch of run \<open>i\<close>. A change of the selection is one step: the state update, the
  cleanup of the run before and the next run of the effect up to its \<^verbatim>\<open>await\<close>. An index
  that names no run settles nothing. Unmounting the component is not part of
  the model.
\<close>

datatype event =
  SetMonths nat
| SetSelectedBorough string
| Settled nat "fetch_error + response option"

fun step :: "app_state \<Rightarrow> event \<Rightarrow> app_state" where
  "step s (SetMonths m) = (if m = months s then s else useEffect_run (s\<lparr>months := m\<rparr>))"
| "step s (SetSelectedBorough b) =
     (if b = selectedBorough s then s else useEffect_run (s\<lparr>selectedBorough := b\<rparr>))"
| "step s (Settled i result) = snd (load_resume i result s)"

text \<open>The initial state of \<^verbatim>\<open>App\<close> and the first run of the effect, at mount.\<close>

definition mount :: app_state where
  "mount = useEffect_run
     \<lparr>salesData = [], neighborhoodData = [], months = 12, selectedBorough = ''All'',
      loadingNYC = True, runs = []\<rparr>"

definition exec :: "app_state \<Rightarrow> event list \<Rightarrow> app_state" where
  "exec s evs = foldl step s evs"

text \<open>The rows a response has for the scope \<open>b\<close>.\<close>

definition response_rows :: "string \<Rightarrow> response option \<Rightarrow> row list" where
  "response_rows b res = (if b = ''All'' then boroughs_or_empty res else neighborhoods_or_empty res)"

text \<open>
  What every state of the component satisfies: there is a latest run, it is the only one
  whose \<^verbatim>\<open>cancel\<close> is still false, and its closure holds the selection of the state.
\<close>

definition runs_inv :: "app_state \<Rightarrow> bool" where
  "runs_inv s =
     (runs s \<noteq> []
      \<and> (\<forall>i<length (runs s). cancel (runs s ! i) = (i \<noteq> current s))
      \<and> run_months (runs s ! current s) = months s
      \<and> run_borough (runs s ! current s) = selectedBorough s)"

section \<open>JavaScript numbers: proofs\<close>

text \<open>
  The exponent brackets its argument; rounding moves a normal number by at most half a
  unit in the last place, that is by at most \<open>x / 2 ^ 53\<close>; integers and half-integers
  below \<open>2 ^ 52\<close> in magnitude are doubles. Hence the quotient of an integer below
  \<open>2 ^ 52\<close> in magnitude by an array length, rounded to a double and then by
  \<^verbatim>\<open>Math.round\<close>, is the exactly rounded quotient.
\<close>

lemma expo_bounds:
  assumes "0 < x"
  shows "2 powi expo x \<le> x" and "x < 2 powi (expo x + 1)"
proof -
  have "2 powi expo x \<le> x \<and> x < 2 powi (expo x + 1)"
  proof (cases "1 \<le> x")
    case True
    define m where "m = \<lfloor>x\<rfloor>"
    have m: "1 \<le> m" "of_int m \<le> x" "x < of_int m + 1"
      using True by (auto simp: m_def le_floor_iff) linarith
    then have b: "2 ^ nat (bitlen m - 1) \<le> m" "m < 2 ^ nat (bitlen m)"
      using bitlen_bounds [of m] by auto
    have b1: "1 \<le> bitlen m"
      using m(1) bitlen_eq_zero_iff [of m] bitlen_nonneg [of m] by linarith
    have e: "expo x = bitlen m - 1"
      using True by (simp add: expo_def m_def)
    have p1: "(2::rat) ^ nat (bitlen m - 1) \<le> of_int m"
      using b(1) by (metis of_int_le_iff of_int_numeral of_int_power)
    have q1: "(2::rat) powi expo x = 2 ^ nat (bitlen m - 1)"
      using b1 by (simp add: e power_int_nonneg_exp)
    have lo: "2 powi expo x \<le> x"
      unfolding q1 using p1 m(2) by (rule order_trans)
    have "m + 1 \<le> 2 ^ nat (bitlen m)"
      using b(2) by simp
    then have p2: "(of_int (m + 1) :: rat) \<le> 2 ^ nat (bitlen m)"
      by (metis of_int_le_iff of_int_numeral of_int_power)
    have q2: "(2::rat) powi (expo x + 1) = 2 ^ nat (bitlen m)"
      using b1 by (simp add: e power_int_nonneg_exp)
    have "x < of_int (m + 1)"
      using m(3) by simp
    then have hi: "x < 2 powi (expo x + 1)"
      unfolding q2 using p2 by (rule less_le_trans)
    show ?thesis using lo hi by simp
  next
    case False
    define y where "y = 1 / x"
    define m where "m = \<lceil>y\<rceil> - 1"
    have y: "1 < y"
      using False assms by (simp add: y_def)
    have m: "1 \<le> m" "of_int m < y" "y \<le> of_int m + 1"
      using y by (auto simp: m_def less_ceiling_iff le_of_int_ceiling) linarith
    then have b: "2 ^ nat (bitlen m - 1) \<le> m" "m < 2 ^ nat (bitlen m)"
      using bitlen_bounds [of m] by auto
    have b1: "1 \<le> bitlen m"
      using m(1) bitlen_eq_zero_iff [of m] bitlen_nonneg [of m] by linarith
    have e: "expo x = - bitlen m"
      using False by (simp add: expo_def m_def y_def)
    have "m + 1 \<le> 2 ^ nat (bitlen m)"
      using b(2) by simp
    then have p2: "(of_int (m + 1) :: rat) \<le> 2 ^ nat (bitlen m)"
      by (metis of_int_le_iff of_int_numeral of_int_power)
    have "y \<le> of_int (m + 1)"
      using m(3) by simp
    then have "y \<le> 2 ^ nat (bitlen m)"
      using p2 by (rule order_trans)
    then have "1 / 2 ^ nat (bitlen m) \<le> x"
      using assms by (simp add: y_def field_simps)
    then have lo: "2 powi expo x \<le> x"
      using b1 by (simp add: e power_int_minus_divide power_int_nonneg_exp)
    have p1: "(2::rat) ^ nat (bitlen m - 1) \<le> of_int m"
      using b(1) by (metis of_int_le_iff of_int_numeral of_int_power)
    have "2 ^ nat (bitlen m - 1) < y"
      using p1 m(2) by (rule le_less_trans)
    then have "x < 1 / 2 ^ nat (bitlen m - 1)"
      using assms by (simp add: y_def field_simps)
    moreover have "expo x + 1 = - (bitlen m - 1)"
      by (simp add: e)
    ultimately have hi: "x < 2 powi (expo x + 1)"
      using b1 by (simp only: power_int_minus_divide) (simp add: power_int_nonneg_exp)
    show ?thesis using lo hi by simp
  qed
  then show "2 powi expo x \<le> x" and "x < 2 powi (expo x + 1)" by simp_all
qed

lemma rne_of_int: "rne (of_int k) = k"
  by (simp add: rne_def)

lemma rne_close: "\<bar>of_int (rne y) - y\<bar> \<le> 1 / 2"
  unfolding rne_def Let_def by (auto simp: abs_if) linarith+


lemma expo_ge:
  assumes "0 < x" and "2 powi k \<le> x"
  shows "k \<le> expo x"
proof -
  have "(2::rat) powi k < 2 powi (expo x + 1)"
    using assms(2) expo_bounds(2) [OF assms(1)] by (rule le_less_trans)
  then have "k < expo x + 1"
    by (smt (verit) power_int_increasing one_le_numeral not_le)
  then show ?thesis by simp
qed

lemma expo_less:
  assumes "0 < x" and "x < 2 powi k"
  shows "expo x < k"
proof -
  have "(2::rat) powi expo x < 2 powi k"
    using expo_bounds(1) [OF assms(1)] assms(2) by (rule le_less_trans)
  then show ?thesis
    by (smt (verit) power_int_increasing one_le_numeral not_le)
qed

lemma ulp_normal:
  assumes "0 < x" and "2 powi (- 1022) \<le> x"
  shows "ulp x = 2 powi expo x / 2 ^ 52"
proof -
  have "- 1022 \<le> expo x"
    using assms by (rule expo_ge)
  then have "ulp x = 2 powi (expo x - 52)"
    by (simp add: ulp_def max_def)
  then show ?thesis
    by (simp add: power_int_diff)
qed

lemma nearest_close:
  assumes "0 < x" and "2 powi (- 1022) \<le> x"
  shows "\<bar>nearest x - x\<bar> \<le> x / 2 ^ 53"
proof -
  let ?u = "ulp x"
  have u: "?u = 2 powi expo x / 2 ^ 52"
    using assms by (rule ulp_normal)
  have upos: "0 < ?u"
    by (simp add: u)
  have "nearest x - x = (of_int (rne (x / ?u)) - x / ?u) * ?u"
    using upos by (simp add: nearest_def field_simps)
  then have "\<bar>nearest x - x\<bar> = \<bar>of_int (rne (x / ?u)) - x / ?u\<bar> * ?u"
    using upos by (simp add: abs_mult)
  also have "\<dots> \<le> (1 / 2) * ?u"
    using rne_close [of "x / ?u"] upos by (intro mult_right_mono) simp_all
  also have "\<dots> = 2 powi expo x / 2 ^ 53"
    by (simp add: u)
  also have "\<dots> \<le> x / 2 ^ 53"
    using expo_bounds(1) [OF assms(1)] by (simp add: divide_right_mono)
  finally show ?thesis .
qed

lemma nearest_exact:
  assumes "0 < x" and "x < 2 ^ 52" and "2 * x = of_int j"
  shows "nearest x = x"
proof -
  have j: "1 \<le> j"
  proof -
    have "(0::rat) < of_int j" using assms(1,3) by linarith
    then show ?thesis by simp
  qed
  then have "(1::rat) \<le> of_int j" by simp
  then have half: "2 powi (- 1) \<le> x"
    using assms(3) by (simp add: power_int_minus_divide)
  have lo: "- 1 \<le> expo x"
    using assms(1) half by (rule expo_ge)
  have "x < 2 powi 52"
    using assms(2) by simp
  then have hi: "expo x < 52"
    using assms(1) by (intro expo_less)
  have u: "ulp x = 2 powi (expo x - 52)"
    using lo by (simp add: ulp_def max_def)
  define t where "t = nat (51 - expo x)"
  have "x / ulp x = x * 2 powi (52 - expo x)"
    by (simp add: u power_int_diff field_simps)
  also have "52 - expo x = int t + 1"
    using hi by (simp add: t_def)
  also have "x * 2 powi (int t + 1) = of_int j * 2 ^ t"
    using assms(3) by (simp add: power_int_add)
  also have "\<dots> = of_int (j * 2 ^ t)"
    by simp
  finally have "x / ulp x = of_int (j * 2 ^ t)" .
  then have "rne (x / ulp x) = j * 2 ^ t"
    by (simp only: rne_of_int)
  then have "nearest x = of_int (j * 2 ^ t) * ulp x"
    by (simp add: nearest_def)
  also have "\<dots> = (x / ulp x) * ulp x"
    using \<open>x / ulp x = of_int (j * 2 ^ t)\<close> by simp
  also have "\<dots> = x"
    by (simp add: u)
  finally show ?thesis .
qed



lemma round64_pos_close:
  assumes "0 < x" and "x < 2 ^ 52" and "2 powi (- 1022) \<le> x"
  shows "round64 x = Fin (nearest x)" and "\<bar>nearest x - x\<bar> \<le> x / 2 ^ 53"
proof -
  show c: "\<bar>nearest x - x\<bar> \<le> x / 2 ^ 53"
    using assms(1,3) by (rule nearest_close)
  have "x / 2 ^ 53 \<le> x"
    using assms(1) by (simp add: field_simps)
  then have "nearest x \<le> 2 * x"
    using c by linarith
  then have "nearest x < 2 ^ 53"
    using assms(2) by simp
  moreover have "(2::rat) ^ 53 < 2 ^ 1024"
    by (rule power_strict_increasing) simp_all
  ultimately have "\<not> 2 ^ 1024 \<le> nearest x"
    by linarith
  then show "round64 x = Fin (nearest x)"
    using assms(1) by (simp add: round64_def)
qed

lemma round64_close:
  assumes "x \<noteq> 0" and "\<bar>x\<bar> < 2 ^ 52" and "2 powi (- 1022) \<le> \<bar>x\<bar>"
  shows "\<exists>y. round64 x = Fin y \<and> \<bar>y - x\<bar> \<le> \<bar>x\<bar> / 2 ^ 53
              \<and> (\<forall>j. 2 * x = of_int j \<longrightarrow> y = x)"
proof (cases "0 < x")
  case True
  then have ax: "\<bar>x\<bar> = x" by simp
  have 1: "round64 x = Fin (nearest x)" and 2: "\<bar>nearest x - x\<bar> \<le> x / 2 ^ 53"
    using round64_pos_close [OF True] assms(2,3) by (simp_all add: ax)
  have 3: "nearest x = x" if "2 * x = of_int j" for j
  proof -
    have lt: "x < 2 ^ 52" using assms(2) ax by simp
    show ?thesis by (rule nearest_exact [OF True lt that])
  qed
  show ?thesis
    using 1 2 3 by (auto simp: ax)
next
  case False
  then have neg: "0 < - x" and ax: "\<bar>x\<bar> = - x"
    using assms(1) by simp_all
  have 1: "round64 (- x) = Fin (nearest (- x))"
    and 2: "\<bar>nearest (- x) - (- x)\<bar> \<le> (- x) / 2 ^ 53"
    using round64_pos_close [OF neg] assms(2,3) by (simp_all add: ax)
  have "\<not> 2 ^ 1024 \<le> nearest (- x)"
    using 1 neg by (auto simp: round64_def split: if_splits)
  then have r: "round64 x = Fin (- nearest (- x))"
    using False assms(1) by (simp add: round64_def)
  have 3: "nearest (- x) = - x" if "2 * x = of_int j" for j
  proof -
    have eq: "2 * (- x) = of_int (- j)" using that by simp
    have lt: "- x < 2 ^ 52" using assms(2) ax by simp
    show ?thesis by (rule nearest_exact [OF neg lt eq])
  qed
  have "\<bar>- nearest (- x) - x\<bar> = \<bar>nearest (- x) - (- x)\<bar>"
    by (simp add: abs_minus_commute)
  then show ?thesis
    using r 2 3 by (auto simp: ax)
qed

lemma round64_mean:
  fixes S :: int and n :: nat
  assumes S: "\<bar>S\<bar> < 2 ^ 52" and n: "0 < n" "n < 2 ^ 32"
  shows "\<exists>y. round64 (of_int S / of_nat n) = Fin y
              \<and> \<lfloor>y + 1 / 2\<rfloor> = \<lfloor>(of_int S / of_nat n :: rat) + 1 / 2\<rfloor>"
proof (cases "S = 0")
  case True
  then show ?thesis by (simp add: round64_def)
next
  case False
  define N :: rat where "N = of_nat n"
  define x :: rat where "x = of_int S / N"
  define k where "k = \<lfloor>x + 1 / 2\<rfloor>"
  define a where "a = 2 * S + int n - 2 * k * int n"
  have Npos: "0 < N" "1 \<le> N"
    using n(1) by (simp_all add: N_def)
  have Nlt: "N < 2 ^ 32"
    using n(2) unfolding N_def by (metis of_nat_less_iff of_nat_numeral of_nat_power)
  have x0: "x \<noteq> 0"
    using False Npos by (simp add: x_def)
  have absx: "\<bar>x\<bar> = \<bar>of_int S\<bar> / N"
    using Npos by (simp add: x_def)
  have "1 \<le> \<bar>S\<bar>"
    using False by simp
  then have "(1::rat) \<le> of_int \<bar>S\<bar>"
    by (metis of_int_1 of_int_le_iff)
  then have S1: "(1::rat) \<le> \<bar>of_int S\<bar>"
    by simp
  have S2: "\<bar>of_int S :: rat\<bar> < 2 ^ 52"
    using S by (metis of_int_abs of_int_less_iff of_int_numeral of_int_power)
  have small: "\<bar>x\<bar> < 2 ^ 52"
  proof -
    have "\<bar>of_int S :: rat\<bar> * 1 \<le> \<bar>of_int S\<bar> * N"
      using Npos by (intro mult_left_mono) simp_all
    then have "\<bar>x\<bar> \<le> \<bar>of_int S\<bar>"
      using Npos by (simp add: absx field_simps)
    then show ?thesis using S2 by linarith
  qed
  have big: "2 powi (- 1022) \<le> \<bar>x\<bar>"
  proof -
    have "(2::rat) powi (- 1022) \<le> 2 powi (- 32)"
      by (rule power_int_increasing) simp_all
    also have "\<dots> = 1 / 2 ^ 32"
      by (simp add: power_int_minus_divide)
    also have "\<dots> \<le> 1 / N"
      using Npos Nlt by (simp add: field_simps)
    also have "\<dots> \<le> \<bar>x\<bar>"
      using S1 Npos by (simp add: absx divide_right_mono)
    finally show ?thesis .
  qed
  from round64_close [OF x0 small big] obtain y
    where y: "round64 x = Fin y" "\<bar>y - x\<bar> \<le> \<bar>x\<bar> / 2 ^ 53"
      "\<And>j. 2 * x = of_int j \<Longrightarrow> y = x"
    by blast
  have d: "\<bar>y - x\<bar> < 1 / (2 * N)"
  proof -
    have "\<bar>x\<bar> < 2 ^ 52 / N"
      unfolding absx using S2 Npos(1) by (rule divide_strict_right_mono)
    then have "\<bar>x\<bar> / 2 ^ 53 < (2 ^ 52 / N) / 2 ^ 53"
      by (rule divide_strict_right_mono) simp
    also have "\<dots> = 1 / (2 * N)"
      by simp
    finally show ?thesis using y(2) by linarith
  qed
  have frac: "x + 1 / 2 - of_int k = of_int a / (2 * N)"
    using Npos by (simp add: x_def a_def N_def field_simps)
  have "of_int k \<le> x + 1 / 2" "x + 1 / 2 < of_int k + 1"
    unfolding k_def by linarith+
  then have "0 \<le> of_int a / (2 * N)" "of_int a / (2 * N) < 1"
    using frac by linarith+
  then have "(0::rat) \<le> of_int a" "(of_int a :: rat) < 2 * N"
    using Npos by (simp_all add: field_simps)
  then have a: "0 \<le> a" "a < 2 * int n"
    by (simp_all add: N_def)
  have "\<lfloor>y + 1 / 2\<rfloor> = k"
  proof (cases "a = 0")
    case True
    then have "2 * x = of_int (2 * k - 1)"
      using frac Npos by (simp add: field_simps)
    then have "y = x" by (rule y(3))
    then show ?thesis by (simp add: k_def)
  next
    case False
    then have "1 \<le> a" "a \<le> 2 * int n - 1"
      using a by linarith+
    then have "(1::rat) \<le> of_int a" "(of_int a :: rat) \<le> of_int (2 * int n - 1)"
      by simp_all
    then have "(1::rat) \<le> of_int a" "(of_int a :: rat) \<le> 2 * N - 1"
      by (simp_all add: N_def)
    then have lo: "1 / (2 * N) \<le> of_int a / (2 * N)"
      and hi: "of_int a / (2 * N) \<le> 1 - 1 / (2 * N)"
      using Npos by (simp_all add: field_simps)
    have "of_int k \<le> y + 1 / 2" "y + 1 / 2 < of_int k + 1"
      using lo hi frac d by linarith+
    then show ?thesis
      by (simp add: floor_unique)
  qed
  then show ?thesis
    using y(1) by (auto simp: k_def x_def N_def)
qed

lemma round64_int:
  assumes "x \<in> \<int>" and "\<bar>x\<bar> < 2 ^ 52"
  shows "round64 x = Fin x"
proof (cases "x = 0")
  case True
  then show ?thesis by (simp add: round64_def)
next
  case False
  from assms(1) obtain k where k: "x = of_int k"
    by (auto elim: Ints_cases)
  have "k \<noteq> 0" using False k by simp
  then have "1 \<le> \<bar>k\<bar>" by simp
  then have "(1::rat) \<le> of_int \<bar>k\<bar>"
    by (metis of_int_1 of_int_le_iff)
  then have one: "1 \<le> \<bar>x\<bar>"
    by (simp add: k)
  have "(2::rat) powi (- 1022) \<le> 2 powi 0"
    by (rule power_int_increasing) simp_all
  then have big: "2 powi (- 1022) \<le> \<bar>x\<bar>"
    using one by simp
  have "2 * x = of_int (2 * k)"
    by (simp add: k)
  with round64_close [OF False assms(2) big] show ?thesis
    by blast
qed

section \<open>Metrics: proofs\<close>

subsection \<open>Sorting\<close>

lemma js_insert_insort_key:
  assumes "\<And>a b. cmp a b = key b - key a"
  shows "js_insert cmp x ys = insort_key (\<lambda>r. - key r) x ys"
  by (induction ys) (simp_all add: assms)

lemma js_sort_sort_key:
  assumes "\<And>a b. cmp a b = key b - key a"
  shows "js_sort cmp xs = sort_key (\<lambda>r. - key r) xs"
  unfolding js_sort_def sort_key_def
  by (induction xs) (simp_all add: js_insert_insort_key [OF assms])

lemma hd_js_insert:
  "hd (js_insert cmp x ys) = (if ys = [] \<or> cmp x (hd ys) \<le> 0 then x else hd ys)"
  by (cases ys) simp_all

lemma js_sort_Cons: "js_sort cmp (x # xs) = js_insert cmp x (js_sort cmp xs)"
  by (simp add: js_sort_def)

lemma js_insert_not_Nil: "js_insert cmp x ys \<noteq> []"
  by (cases ys) simp_all

lemma js_sort_Nil_iff: "js_sort cmp xs = [] \<longleftrightarrow> xs = []"
  by (cases xs) (simp_all add: js_sort_def js_insert_not_Nil)

lemma hd_js_sort_first_max:
  assumes cmp: "\<And>a b. cmp a b = key b - key a" and ne: "xs \<noteq> []"
  shows "\<exists>i<length xs. hd (js_sort cmp xs) = xs ! i
           \<and> (\<forall>j<length xs. key (xs ! j) \<le> key (xs ! i))
           \<and> (\<forall>j<i. key (xs ! j) < key (xs ! i))"
  using ne
proof (induction xs)
  case Nil
  then show ?case by simp
next
  case (Cons x xs)
  show ?case
  proof (cases "xs = []")
    case True
    then show ?thesis by (simp add: js_sort_def)
  next
    case False
    from Cons.IH [OF False] obtain i where i: "i < length xs"
      and h: "hd (js_sort cmp xs) = xs ! i"
      and mx: "\<forall>j<length xs. key (xs ! j) \<le> key (xs ! i)"
      and fst: "\<forall>j<i. key (xs ! j) < key (xs ! i)"
      by blast
    have ne': "js_sort cmp xs \<noteq> []" using False by (simp add: js_sort_Nil_iff)
    show ?thesis
    proof (cases "key (xs ! i) \<le> key x")
      case True
      then have "hd (js_sort cmp (x # xs)) = x"
        by (simp add: js_sort_Cons hd_js_insert h cmp)
      moreover have "\<forall>j<length (x # xs). key ((x # xs) ! j) \<le> key x"
      proof (intro allI impI)
        fix j assume "j < length (x # xs)"
        then show "key ((x # xs) ! j) \<le> key x"
          using mx True by (cases j) (auto intro: order_trans)
      qed
      ultimately show ?thesis
        by (intro exI [of _ 0]) simp
    next
      case lt: False
      then have "hd (js_sort cmp (x # xs)) = xs ! i"
        by (simp add: js_sort_Cons hd_js_insert h cmp ne')
      moreover have "\<forall>j<length (x # xs). key ((x # xs) ! j) \<le> key (xs ! i)"
      proof (intro allI impI)
        fix j assume "j < length (x # xs)"
        then show "key ((x # xs) ! j) \<le> key (xs ! i)"
          using mx lt by (cases j) auto
      qed
      moreover have "\<forall>j<Suc i. key ((x # xs) ! j) < key (xs ! i)"
      proof (intro allI impI)
        fix j assume "j < Suc i"
        then show "key ((x # xs) ! j) < key (xs ! i)"
          using fst lt by (cases j) auto
      qed
      ultimately show ?thesis
        using i by (intro exI [of _ "Suc i"]) simp
    qed
  qed
qed

lemma by_median_desc_key: "by_median_desc a b = or_zero (median_value b) - or_zero (median_value a)"
  by (simp add: by_median_desc_def)

lemma by_count_desc_key: "by_count_desc a b = or_zero (count b) - or_zero (count a)"
  by (simp add: by_count_desc_def)

lemma first_label_hd:
  "arr \<noteq> [] \<Longrightarrow> first_label allB arr = (if allB then borough (hd arr) else neighborhood (hd arr))"
  by (cases arr) (simp_all add: first_label_def)

lemma first_number_hd: "arr \<noteq> [] \<Longrightarrow> first_number field arr = or_zero (field (hd arr))"
  by (cases arr) (simp_all add: first_number_def)

lemma Math_round_of_int: "Math_round (of_int k) = k"
proof -
  have "\<lfloor>(of_int k :: rat) + 1 / 2\<rfloor> = k"
    by (simp add: floor_eq_iff)
  then show ?thesis by (simp add: Math_round_def)
qed

subsection \<open>The summary\<close>

text \<open>
  C3. The summary of an empty row collection is the placeholder summary: zero totals and
  the em dash as both labels. The model is a total function, every division of the
  source is behind the emptiness test.
\<close>

theorem kpis_empty:
  "kpis [] allB =
     \<lparr>totalSales = Fin 0, median = Fin 0, topLabel = Some em_dash, topValue = 0,
      topVolumeLabel = Some em_dash, topVolumeCount = 0\<rparr>"
  by (simp add: kpis_def)

text \<open>
  Sums of integers that stay below \<open>2 ^ 52\<close> in magnitude are exact in doubles.
\<close>

lemma foldl_js_add_exact:
  assumes "a \<in> \<int>" and "\<forall>r\<in>set rs. f r \<in> \<int>"
    and "\<bar>a\<bar> + (\<Sum>r\<leftarrow>rs. \<bar>f r\<bar>) < 2 ^ 52"
  shows "foldl (\<lambda>sum r. js_add sum (Fin (f r))) (Fin a) rs = Fin (a + (\<Sum>r\<leftarrow>rs. f r))"
  using assms
proof (induction rs arbitrary: a)
  case Nil
  then show ?case by simp
next
  case (Cons r rs)
  have int: "a + f r \<in> \<int>"
    using Cons.prems by simp
  have nn: "0 \<le> (\<Sum>r\<leftarrow>rs. \<bar>f r\<bar>)"
    by (rule sum_list_nonneg) auto
  have "\<bar>a + f r\<bar> \<le> \<bar>a\<bar> + \<bar>f r\<bar>"
    by (rule abs_triangle_ineq)
  then have bound: "\<bar>a + f r\<bar> + (\<Sum>r\<leftarrow>rs. \<bar>f r\<bar>) < 2 ^ 52"
    using Cons.prems(3) by simp
  then have small: "\<bar>a + f r\<bar> < 2 ^ 52"
    using nn by linarith
  have step: "round64 (a + f r) = Fin (a + f r)"
    by (rule round64_int [OF int small])
  have "foldl (\<lambda>sum r. js_add sum (Fin (f r))) (Fin (a + f r)) rs
          = Fin (a + f r + (\<Sum>r\<leftarrow>rs. f r))"
    using Cons.prems(2) by (intro Cons.IH [OF int _ bound]) simp
  then show ?case
    by (simp add: step add.assoc)
qed

lemma sum_list_Ints: "\<forall>r\<in>set rs. f r \<in> \<int> \<Longrightarrow> (\<Sum>r\<leftarrow>rs. f r) \<in> (\<int> :: rat set)"
  by (induction rs) simp_all

lemma abs_sum_list_le: "\<bar>\<Sum>r\<leftarrow>rs. f r\<bar> \<le> (\<Sum>r\<leftarrow>rs. \<bar>f r :: rat\<bar>)"
  by (induction rs) (simp_all add: abs_triangle_ineq [THEN order_trans])

lemma kpis_median_integers:
  assumes ne: "rows \<noteq> []" and len: "length rows < 2 ^ 32"
    and ints: "\<forall>r\<in>set rows. or_zero (median_value r) \<in> \<int>"
    and bound: "(\<Sum>r\<leftarrow>rows. \<bar>or_zero (median_value r)\<bar>) < 2 ^ 52"
  shows "median (kpis rows allB) =
           Fin (of_int (Math_round ((\<Sum>r\<leftarrow>rows. or_zero (median_value r))
                                      / of_nat (length rows))))"
proof -
  let ?f = "\<lambda>r. or_zero (median_value r)"
  have sum: "foldl (\<lambda>sum r. js_add sum (Fin (?f r))) (Fin 0) rows = Fin (\<Sum>r\<leftarrow>rows. ?f r)"
    using foldl_js_add_exact [of 0 rows ?f] ints bound by simp
  obtain S where S: "(\<Sum>r\<leftarrow>rows. ?f r) = of_int S"
    using sum_list_Ints [OF ints] by (auto elim: Ints_cases)
  have "\<bar>of_int S :: rat\<bar> < 2 ^ 52"
    using abs_sum_list_le [of ?f rows] bound by (simp add: S)
  then have Sb: "\<bar>S\<bar> < 2 ^ 52"
    by (metis of_int_abs of_int_less_iff of_int_numeral of_int_power)
  have n: "0 < length rows"
    using ne by simp
  from round64_mean [OF Sb n len] obtain y
    where y: "round64 (of_int S / of_nat (length rows)) = Fin y"
      "\<lfloor>y + 1 / 2\<rfloor> = \<lfloor>(of_int S / of_nat (length rows) :: rat) + 1 / 2\<rfloor>"
    by blast
  have "js_div (Fin (of_int S)) (of_nat (length rows)) = Fin y"
    using n y(1) by (simp add: js_div_def)
  then show ?thesis
    using ne y(2) by (simp add: kpis_def Let_def sum S js_round_def Math_round_def)
qed

text \<open>
  C2 (amended). For a non-empty row collection whose \<^verbatim>\<open>median_value\<close>s are integers
  (a missing value counting as \<open>0\<close>) with magnitudes summing to less than \<open>2 ^ 52\<close>,
  \<^verbatim>\<open>kpis.median\<close> is the arithmetic mean over all rows, a missing value adding \<open>0\<close>
  to the sum and the row still counting in the denominator, rounded to the nearest
  integer by \<^verbatim>\<open>Math.round\<close>; it is the mean itself whenever the mean is an integer.
  The length bound holds of every JavaScript array.
\<close>

theorem kpis_median_rounded_mean:
  assumes "rows \<noteq> []" and "length rows < 2 ^ 32"
    and "\<forall>r\<in>set rows. or_zero (median_value r) \<in> \<int>"
    and "(\<Sum>r\<leftarrow>rows. \<bar>or_zero (median_value r)\<bar>) < 2 ^ 52"
  shows "median (kpis rows allB) =
           Fin (of_int (Math_round ((\<Sum>r\<leftarrow>rows. or_zero (median_value r))
                                      / of_nat (length rows))))
         \<and> (\<forall>k. (\<Sum>r\<leftarrow>rows. or_zero (median_value r)) / of_nat (length rows) = of_int k
               \<longrightarrow> median (kpis rows allB) = Fin (of_int k))"
  using kpis_median_integers [OF assms, of allB]
  by (auto simp: Math_round_of_int)

text \<open>
  The medians \<open>[100, 200, missing]\<close> give \<open>100\<close>, not \<open>150\<close>.
\<close>

theorem kpis_median_rounded_mean_witness:
  "median (kpis
     [\<lparr>borough = None, neighborhood = None, count = None, median_value = Some 100, avg_value = None\<rparr>,
      \<lparr>borough = None, neighborhood = None, count = None, median_value = Some 200, avg_value = None\<rparr>,
      \<lparr>borough = None, neighborhood = None, count = None, median_value = None, avg_value = None\<rparr>] True)
   = Fin 100"
  using kpis_median_rounded_mean [of
     "[\<lparr>borough = None, neighborhood = None, count = None, median_value = Some 100, avg_value = None\<rparr>,
      \<lparr>borough = None, neighborhood = None, count = None, median_value = Some 200, avg_value = None\<rparr>,
      \<lparr>borough = None, neighborhood = None, count = None, median_value = None, avg_value = None\<rparr>]" True]
  by (simp add: or_zero_def Math_round_def floor_eq_iff)

text \<open>
  C2 as stated fails where the mean is not an integer: the medians \<open>[100, 201]\<close> have
  the mean \<open>150.5\<close>, and \<^verbatim>\<open>kpis.median\<close> is \<open>151\<close>.
\<close>

theorem kpis_median_exact_mean_counterexample:
  "median (kpis
     [\<lparr>borough = None, neighborhood = None, count = None, median_value = Some 100, avg_value = None\<rparr>,
      \<lparr>borough = None, neighborhood = None, count = None, median_value = Some 201, avg_value = None\<rparr>] True)
   = Fin 151
   \<and> Fin 151 \<noteq> Fin ((100 + 201) / 2)"
  using kpis_median_integers [of
     "[\<lparr>borough = None, neighborhood = None, count = None, median_value = Some 100, avg_value = None\<rparr>,
      \<lparr>borough = None, neighborhood = None, count = None, median_value = Some 201, avg_value = None\<rparr>]" True]
  by (simp add: or_zero_def Math_round_def floor_eq_iff)

text \<open>
  C4. For a non-empty row collection, the top row by value is the first row in input
  order among those with the largest \<^verbatim>\<open>median_value\<close> (a missing value read as \<open>0\<close>):
  no row has a larger value and every row before it has a strictly smaller one. The top
  row by volume is the first row among those with the largest \<^verbatim>\<open>count\<close>, in the same
  sense. The label is the row's \<^verbatim>\<open>borough\<close> or \<^verbatim>\<open>neighborhood\<close>, by scope.
\<close>

theorem kpis_top_first_max:
  assumes "rows \<noteq> []"
  shows "(\<exists>i<length rows.
            (\<forall>j<length rows. or_zero (median_value (rows ! j)) \<le> or_zero (median_value (rows ! i)))
          \<and> (\<forall>j<i. or_zero (median_value (rows ! j)) < or_zero (median_value (rows ! i)))
          \<and> topLabel (kpis rows allB) = (if allB then borough (rows ! i) else neighborhood (rows ! i))
          \<and> topValue (kpis rows allB) = or_zero (median_value (rows ! i)))
       \<and> (\<exists>i<length rows.
            (\<forall>j<length rows. or_zero (count (rows ! j)) \<le> or_zero (count (rows ! i)))
          \<and> (\<forall>j<i. or_zero (count (rows ! j)) < or_zero (count (rows ! i)))
          \<and> topVolumeLabel (kpis rows allB) = (if allB then borough (rows ! i) else neighborhood (rows ! i))
          \<and> topVolumeCount (kpis rows allB) = or_zero (count (rows ! i)))"
proof
  have ne: "js_sort by_median_desc rows \<noteq> []"
    using assms by (simp add: js_sort_Nil_iff)
  from hd_js_sort_first_max [of by_median_desc "\<lambda>r. or_zero (median_value r)" rows,
      OF by_median_desc_key assms]
  obtain i where "i < length rows" "hd (js_sort by_median_desc rows) = rows ! i"
    "\<forall>j<length rows. or_zero (median_value (rows ! j)) \<le> or_zero (median_value (rows ! i))"
    "\<forall>j<i. or_zero (median_value (rows ! j)) < or_zero (median_value (rows ! i))"
    by blast
  then show "\<exists>i<length rows.
            (\<forall>j<length rows. or_zero (median_value (rows ! j)) \<le> or_zero (median_value (rows ! i)))
          \<and> (\<forall>j<i. or_zero (median_value (rows ! j)) < or_zero (median_value (rows ! i)))
          \<and> topLabel (kpis rows allB) = (if allB then borough (rows ! i) else neighborhood (rows ! i))
          \<and> topValue (kpis rows allB) = or_zero (median_value (rows ! i))"
    using assms ne
    by (intro exI [of _ i]) (simp add: kpis_def Let_def first_label_hd first_number_hd)
next
  have ne: "js_sort by_count_desc rows \<noteq> []"
    using assms by (simp add: js_sort_Nil_iff)
  from hd_js_sort_first_max [of by_count_desc "\<lambda>r. or_zero (count r)" rows,
      OF by_count_desc_key assms]
  obtain i where "i < length rows" "hd (js_sort by_count_desc rows) = rows ! i"
    "\<forall>j<length rows. or_zero (count (rows ! j)) \<le> or_zero (count (rows ! i))"
    "\<forall>j<i. or_zero (count (rows ! j)) < or_zero (count (rows ! i))"
    by blast
  then show "\<exists>i<length rows.
            (\<forall>j<length rows. or_zero (count (rows ! j)) \<le> or_zero (count (rows ! i)))
          \<and> (\<forall>j<i. or_zero (count (rows ! j)) < or_zero (count (rows ! i)))
          \<and> topVolumeLabel (kpis rows allB) = (if allB then borough (rows ! i) else neighborhood (rows ! i))
          \<and> topVolumeCount (kpis rows allB) = or_zero (count (rows ! i))"
    using assms ne
    by (intro exI [of _ i]) (simp add: kpis_def Let_def first_label_hd first_number_hd)
qed

text \<open>Rows A and B with equal medians and counts 10 and 30: A by value, B by volume.\<close>

theorem kpis_top_first_max_witness:
  "[\<lparr>borough = Some ''A'', neighborhood = None, count = Some 10, median_value = Some 500000, avg_value = None\<rparr>,
    \<lparr>borough = Some ''B'', neighborhood = None, count = Some 30, median_value = Some 500000, avg_value = None\<rparr>] \<noteq> []
   \<and> topLabel (kpis
       [\<lparr>borough = Some ''A'', neighborhood = None, count = Some 10, median_value = Some 500000, avg_value = None\<rparr>,
        \<lparr>borough = Some ''B'', neighborhood = None, count = Some 30, median_value = Some 500000, avg_value = None\<rparr>]
       True) = Some ''A''
   \<and> topVolumeLabel (kpis
       [\<lparr>borough = Some ''A'', neighborhood = None, count = Some 10, median_value = Some 500000, avg_value = None\<rparr>,
        \<lparr>borough = Some ''B'', neighborhood = None, count = Some 30, median_value = Some 500000, avg_value = None\<rparr>]
       True) = Some ''B''"
  using kpis_top_first_max [of
       "[\<lparr>borough = Some ''A'', neighborhood = None, count = Some 10, median_value = Some 500000, avg_value = None\<rparr>,
        \<lparr>borough = Some ''B'', neighborhood = None, count = Some 30, median_value = Some 500000, avg_value = None\<rparr>]"
       True]
  by (auto simp: or_zero_def less_Suc_eq numeral_2_eq_2)

text \<open>
  C5. In the all-boroughs scope the chart data are the rows as they are. In a borough's
  scope they are the first 10 elements of the rows sorted by \<^verbatim>\<open>median_value\<close>
  descending, the sort being a stable permutation: for every value, the rows with that
  value appear in the sorted list in their input order. The chart has
  \<open>min 10 (length rows)\<close> rows.
\<close>

theorem chartData_stable_top10:
  "chartData True rows = rows
   \<and> chartData False rows = take 10 (js_sort by_median_desc rows)
   \<and> length (chartData False rows) = min 10 (length rows)
   \<and> length (js_sort by_median_desc rows) = length rows
   \<and> sorted_wrt (\<lambda>a b. or_zero (median_value a) \<ge> or_zero (median_value b))
        (js_sort by_median_desc rows)
   \<and> (\<forall>k. filter (\<lambda>r. or_zero (median_value r) = k) (js_sort by_median_desc rows)
          = filter (\<lambda>r. or_zero (median_value r) = k) rows)"
proof -
  let ?f = "\<lambda>r. - or_zero (median_value r)"
  have eq: "js_sort by_median_desc rows = sort_key ?f rows"
    by (rule js_sort_sort_key [OF by_median_desc_key])
  have "sorted (map ?f (sort_key ?f rows))"
    by (rule sorted_sort_key)
  then have srt: "sorted_wrt (\<lambda>a b. or_zero (median_value a) \<ge> or_zero (median_value b))
        (sort_key ?f rows)"
    by (simp add: sorted_map)
  have stab: "filter (\<lambda>r. or_zero (median_value r) = k) (sort_key ?f rows)
          = filter (\<lambda>r. or_zero (median_value r) = k) rows" for k
    using sort_key_stable [of ?f "- k" rows] by simp
  show ?thesis
    by (simp add: chartData_def eq srt stab)
qed

text \<open>
  Fifteen neighborhoods with the largest median twice (b and e) and another tie (c and
  i): ten rows, b before e at the head, c before i.
\<close>

theorem chartData_stable_top10_witness:
  "chartData False
     [nbhd ''a'' 50, nbhd ''b'' 900, nbhd ''c'' 70, nbhd ''d'' 10, nbhd ''e'' 900,
      nbhd ''f'' 20, nbhd ''g'' 800, nbhd ''h'' 30, nbhd ''i'' 70, nbhd ''j'' 40,
      nbhd ''k'' 60, nbhd ''l'' 5, nbhd ''m'' 100, nbhd ''n'' 15, nbhd ''o'' 25]
   = [nbhd ''b'' 900, nbhd ''e'' 900, nbhd ''g'' 800, nbhd ''m'' 100, nbhd ''c'' 70,
      nbhd ''i'' 70, nbhd ''k'' 60, nbhd ''a'' 50, nbhd ''j'' 40, nbhd ''h'' 30]"
proof -
  have "js_sort by_median_desc
     [nbhd ''a'' 50, nbhd ''b'' 900, nbhd ''c'' 70, nbhd ''d'' 10, nbhd ''e'' 900,
      nbhd ''f'' 20, nbhd ''g'' 800, nbhd ''h'' 30, nbhd ''i'' 70, nbhd ''j'' 40,
      nbhd ''k'' 60, nbhd ''l'' 5, nbhd ''m'' 100, nbhd ''n'' 15, nbhd ''o'' 25]
   = [nbhd ''b'' 900, nbhd ''e'' 900, nbhd ''g'' 800, nbhd ''m'' 100, nbhd ''c'' 70,
      nbhd ''i'' 70, nbhd ''k'' 60, nbhd ''a'' 50, nbhd ''j'' 40, nbhd ''h'' 30,
      nbhd ''o'' 25, nbhd ''f'' 20, nbhd ''n'' 15, nbhd ''d'' 10, nbhd ''l'' 5]"
    by (simp add: js_sort_def by_median_desc_def nbhd_def or_zero_def)
  then show ?thesis
    using chartData_stable_top10 [of
     "[nbhd ''a'' 50, nbhd ''b'' 900, nbhd ''c'' 70, nbhd ''d'' 10, nbhd ''e'' 900,
      nbhd ''f'' 20, nbhd ''g'' 800, nbhd ''h'' 30, nbhd ''i'' 70, nbhd ''j'' 40,
      nbhd ''k'' 60, nbhd ''l'' 5, nbhd ''m'' 100, nbhd ''n'' 15, nbhd ''o'' 25]"]
    by simp
qed

section \<open>The bar chart: proofs\<close>

lemma Math_max_Max: "Math_max x xs = Max (set (x # xs))"
  by (simp only: Math_max_def Max.set_eq_fold)

lemma BarChart_Cons:
  "rows \<noteq> [] \<Longrightarrow> length rows \<le> argLimit \<Longrightarrow>
   BarChart argLimit rows labelKey valueKey =
     Inr (Some (map (\<lambda>r. \<lparr>bar_label = labelKey r,
                      pct = (if Max ((\<lambda>d. or_zero (valueKey d)) ` set rows) > 0
                             then js_max (Fin 4) (js_round (js_mul (js_div (Fin (or_zero (valueKey r)))
                                    (Max ((\<lambda>d. or_zero (valueKey d)) ` set rows))) 100))
                             else Fin 0),
                      val = or_zero (valueKey r)\<rparr>) rows))"
  by (cases rows) (simp_all add: BarChart_def Math_max_Max Let_def)

lemma round64_1: "round64 1 = Fin 1"
  by (rule round64_int) simp_all

lemma round64_100: "round64 100 = Fin 100"
  by (rule round64_int) simp_all

lemma pct_of_max: "0 < m \<Longrightarrow> js_max (Fin 4) (js_round (js_mul (js_div (Fin m) m) 100)) = Fin 100"
  using Math_round_of_int [of 100]
  by (simp add: js_div_def js_mul_def js_round_def round64_1 round64_100)

lemma BarChart_too_long:
  "argLimit < length rows \<Longrightarrow> BarChart argLimit rows labelKey valueKey = Inl RangeError"
  by (cases rows) (simp_all add: BarChart_def)

lemma pct_100_of_300: "js_max (Fin 4) (js_round (js_mul (js_div (Fin 100) 300) 100)) = Fin 33"
  by code_simp

lemma pct_1_of_300: "js_max (Fin 4) (js_round (js_mul (js_div (Fin 1) 300) 100)) = Fin 4"
  by code_simp

lemma pct_29_of_200: "js_max (Fin 4) (js_round (js_mul (js_div (Fin 29) 200) 100)) = Fin 14"
  by code_simp

lemma exact_29_of_200: "max 4 (Math_round (29 / 200 * 100)) = 15"
  by (simp add: Math_round_def floor_eq_iff)

text \<open>
  C9 (amended). An empty collection renders nothing. For a non-empty collection that the
  engine accepts as arguments of \<^verbatim>\<open>Math.max\<close> there is one bar per row; with \<open>mx\<close> the
  largest value of the collection (a missing value read as \<open>0\<close>), the percentage of a
  bar is \<^verbatim>\<open>Math.max(4, Math.round((value / mx) * 100))\<close> in double arithmetic when
  \<open>mx > 0\<close>, so the bar of a row whose value is \<open>mx\<close> is at 100, and it is \<open>0\<close> for
  every bar when \<open>mx = 0\<close>. The division is made only when \<open>mx > 0\<close>.
\<close>

theorem BarChart_pct:
  "BarChart argLimit [] labelKey valueKey = Inr None
   \<and> (rows \<noteq> [] \<and> length rows \<le> argLimit \<longrightarrow>
        (\<exists>bars. BarChart argLimit rows labelKey valueKey = Inr (Some bars)
           \<and> length bars = length rows
           \<and> (\<forall>i<length rows.
                 val (bars ! i) = or_zero (valueKey (rows ! i))
               \<and> (0 < Max ((\<lambda>d. or_zero (valueKey d)) ` set rows) \<longrightarrow>
                    pct (bars ! i) =
                      js_max (Fin 4) (js_round (js_mul (js_div (Fin (or_zero (valueKey (rows ! i))))
                               (Max ((\<lambda>d. or_zero (valueKey d)) ` set rows))) 100)))
               \<and> (0 < Max ((\<lambda>d. or_zero (valueKey d)) ` set rows)
                    \<and> or_zero (valueKey (rows ! i)) = Max ((\<lambda>d. or_zero (valueKey d)) ` set rows)
                    \<longrightarrow> pct (bars ! i) = Fin 100)
               \<and> (Max ((\<lambda>d. or_zero (valueKey d)) ` set rows) = 0 \<longrightarrow> pct (bars ! i) = Fin 0))))"
proof (intro conjI impI)
  show "BarChart argLimit [] labelKey valueKey = Inr None"
    by (simp add: BarChart_def)
next
  assume a: "rows \<noteq> [] \<and> length rows \<le> argLimit"
  then have ne: "rows \<noteq> []" and le: "length rows \<le> argLimit" by simp_all
  show "\<exists>bars. BarChart argLimit rows labelKey valueKey = Inr (Some bars)
           \<and> length bars = length rows
           \<and> (\<forall>i<length rows.
                 val (bars ! i) = or_zero (valueKey (rows ! i))
               \<and> (0 < Max ((\<lambda>d. or_zero (valueKey d)) ` set rows) \<longrightarrow>
                    pct (bars ! i) =
                      js_max (Fin 4) (js_round (js_mul (js_div (Fin (or_zero (valueKey (rows ! i))))
                               (Max ((\<lambda>d. or_zero (valueKey d)) ` set rows))) 100)))
               \<and> (0 < Max ((\<lambda>d. or_zero (valueKey d)) ` set rows)
                    \<and> or_zero (valueKey (rows ! i)) = Max ((\<lambda>d. or_zero (valueKey d)) ` set rows)
                    \<longrightarrow> pct (bars ! i) = Fin 100)
               \<and> (Max ((\<lambda>d. or_zero (valueKey d)) ` set rows) = 0 \<longrightarrow> pct (bars ! i) = Fin 0))"
    by (simp add: BarChart_Cons [OF ne le] pct_of_max)
qed

text \<open>
  The values 300, 100, 1 give 100, 33 and the floor 4; an all-zero collection gives 0.
\<close>

theorem BarChart_pct_witness:
  "bar_pcts (BarChart 65535 [nbhd ''a'' 300, nbhd ''b'' 100, nbhd ''c'' 1] neighborhood median_value)
     = [Fin 100, Fin 33, Fin 4]
   \<and> bar_pcts (BarChart 65535 [nbhd ''a'' 0, nbhd ''b'' 0] neighborhood median_value)
     = [Fin 0, Fin 0]"
proof -
  have len3: "length bs = Suc (Suc (Suc 0)) \<Longrightarrow>
      map f bs = [f (bs ! 0), f (bs ! Suc 0), f (bs ! Suc (Suc 0))]"
    for bs :: "bar list" and f :: "bar \<Rightarrow> number"
    by (cases bs; cases "tl bs"; cases "tl (tl bs)") auto
  have len2: "length bs = Suc (Suc 0) \<Longrightarrow> map f bs = [f (bs ! 0), f (bs ! Suc 0)]"
    for bs :: "bar list" and f :: "bar \<Rightarrow> number"
    by (cases bs; cases "tl bs") auto
  have a: "bar_pcts (BarChart 65535 [nbhd ''a'' 300, nbhd ''b'' 100, nbhd ''c'' 1]
             neighborhood median_value) = [Fin 100, Fin 33, Fin 4]"
    using BarChart_pct [of 65535 neighborhood median_value
        "[nbhd ''a'' 300, nbhd ''b'' 100, nbhd ''c'' 1]"]
    by (auto simp: bar_pcts_def nbhd_def or_zero_def All_less_Suc2 len3 pct_100_of_300
          pct_1_of_300)
  have b: "bar_pcts (BarChart 65535 [nbhd ''a'' 0, nbhd ''b'' 0] neighborhood median_value)
             = [Fin 0, Fin 0]"
    using BarChart_pct [of 65535 neighborhood median_value "[nbhd ''a'' 0, nbhd ''b'' 0]"]
    by (auto simp: bar_pcts_def nbhd_def or_zero_def All_less_Suc2 len2)
  show ?thesis using a b by simp
qed

text \<open>
  C9 as stated fails in two ways. With the percentage read as the exactly rounded
  quotient, 29 of 200 would be 15; the quotient \<^verbatim>\<open>29 / 200\<close> rounds down to a double
  whose hundredfold is below 14.5, and the bar is at 14. And a collection with more rows
  than the engine accepts as arguments renders no bars: \<^verbatim>\<open>Math.max(...)\<close> throws.
\<close>

theorem BarChart_pct_exact_counterexample:
  "bar_pcts (BarChart 65535 [nbhd ''a'' 200, nbhd ''b'' 29] neighborhood median_value)
     = [Fin 100, Fin 14]
   \<and> max 4 (Math_round (29 / 200 * 100)) = 15
   \<and> BarChart 65535 (replicate 65536 (nbhd ''a'' 1)) neighborhood median_value = Inl RangeError"
proof -
  have "bar_pcts (BarChart 65535 [nbhd ''a'' 200, nbhd ''b'' 29] neighborhood median_value)
     = [Fin 100, Fin 14]"
    by (simp add: bar_pcts_def BarChart_def Math_max_def nbhd_def or_zero_def pct_of_max
          pct_29_of_200)
  moreover have "BarChart 65535 (replicate 65536 (nbhd ''a'' 1)) neighborhood median_value
      = Inl RangeError"
    by (rule BarChart_too_long) simp
  ultimately show ?thesis
    using exact_29_of_200 by simp
qed

section \<open>The animated number: proofs\<close>

lemma slot_inv_mount: "slot_inv slot_mount"
  by (simp add: slot_inv_def slot_mount_def)

lemma AnimatedNumber_hd:
  "hd (fst (AnimatedNumber st v)) = \<lparr>from_number = fromValue st, to_number = or_zero v\<rparr>"
  by (simp add: AnimatedNumber_def render_def Let_def)

lemma AnimatedNumber_tl:
  "p \<in> set (tl (fst (AnimatedNumber st v))) \<Longrightarrow> from_number p = or_zero v \<and> to_number p = or_zero v"
  by (auto simp: AnimatedNumber_def render_def Let_def effect_def fromValue_def split: if_splits)

lemma AnimatedNumber_state:
  assumes "slot_inv st"
  shows "slot_inv (snd (AnimatedNumber st v))"
    and "hasAnimated (snd (AnimatedNumber st v)) = (hasAnimated st \<or> 0 < or_zero v)"
    and "previous (snd (AnimatedNumber st v)) = or_zero v"
    and "deps (snd (AnimatedNumber st v)) \<noteq> None"
  using assms
  by (auto simp: slot_inv_def AnimatedNumber_def render_def Let_def effect_def slot_mount_def
           split: option.splits if_splits)

lemma animate_snoc:
  "snd (animate st (vs @ [v])) = snd (AnimatedNumber (snd (animate st vs)) v)"
  by (induction vs arbitrary: st) (simp_all add: split_def Let_def)

lemma animate_state:
  "slot_inv (snd (animate slot_mount vs))
   \<and> hasAnimated (snd (animate slot_mount vs)) = (\<exists>u\<in>set vs. 0 < or_zero u)
   \<and> (vs \<noteq> [] \<longrightarrow> previous (snd (animate slot_mount vs)) = or_zero (last vs))"
proof (induction vs rule: rev_induct)
  case Nil
  show ?case by (simp add: slot_inv_mount) (simp add: slot_mount_def)
next
  case (snoc v vs)
  then show ?case
    by (auto simp: animate_snoc AnimatedNumber_state)
qed

lemma animate_positive_marks:
  "hasAnimated (snd (animate slot_mount vs)) = (\<exists>u\<in>set vs. 0 < or_zero u)
   \<and> (vs \<noteq> [] \<longrightarrow> previous (snd (animate slot_mount vs)) = or_zero (last vs))
   \<and> from_number (hd (fst (AnimatedNumber (snd (animate slot_mount vs)) v)))
       = (if \<exists>u\<in>set vs. 0 < or_zero u then or_zero (last vs) else 0)
   \<and> to_number (hd (fst (AnimatedNumber (snd (animate slot_mount vs)) v))) = or_zero v
   \<and> hasAnimated (snd (AnimatedNumber (snd (animate slot_mount vs)) v))
       = ((\<exists>u\<in>set vs. 0 < or_zero u) \<or> 0 < or_zero v)
   \<and> (\<forall>p\<in>set (tl (fst (AnimatedNumber (snd (animate slot_mount vs)) v))).
         from_number p = or_zero v \<and> to_number p = or_zero v)"
proof -
  let ?st = "snd (animate slot_mount vs)"
  have st: "slot_inv ?st" "hasAnimated ?st = (\<exists>u\<in>set vs. 0 < or_zero u)"
    "vs \<noteq> [] \<longrightarrow> previous ?st = or_zero (last vs)"
    using animate_state [of vs] by simp_all
  have ne: "(\<exists>u\<in>set vs. 0 < or_zero u) \<Longrightarrow> vs \<noteq> []"
    by auto
  have "from_number (hd (fst (AnimatedNumber ?st v)))
       = (if \<exists>u\<in>set vs. 0 < or_zero u then or_zero (last vs) else 0)"
    using st ne by (simp add: AnimatedNumber_hd fromValue_def)
  moreover have "to_number (hd (fst (AnimatedNumber ?st v))) = or_zero v"
    by (simp add: AnimatedNumber_hd)
  moreover have "hasAnimated (snd (AnimatedNumber ?st v)) = ((\<exists>u\<in>set vs. 0 < or_zero u) \<or> 0 < or_zero v)"
    using AnimatedNumber_state(2) [OF st(1)] st(2) by simp
  moreover have "\<forall>p\<in>set (tl (fst (AnimatedNumber ?st v))).
         from_number p = or_zero v \<and> to_number p = or_zero v"
    using AnimatedNumber_tl by blast
  ultimately show ?thesis using st by blast
qed

text \<open>
  C10. For every sequence \<open>vs\<close> of targets the slot has been given and every next target
  \<open>v\<close>, none of them negative (the displayed values are counts and prices): the slot is
  marked exactly when some target so far was not zero, and the ref holds the last
  committed target. The render for \<open>v\<close> animates from \<open>0\<close> while the slot is unmarked,
  so the first nonzero target starts from \<open>0\<close>, and it marks the slot; once the slot is
  marked, the render for \<open>v\<close> animates from the previously committed target. The
  render that follows the marking goes from \<open>v\<close> to \<open>v\<close>.
\<close>

theorem AnimatedNumber_nonzero_marks:
  assumes "\<forall>u\<in>set vs. 0 \<le> or_zero u" and "0 \<le> or_zero v"
  shows "hasAnimated (snd (animate slot_mount vs)) = (\<exists>u\<in>set vs. or_zero u \<noteq> 0)
   \<and> (vs \<noteq> [] \<longrightarrow> previous (snd (animate slot_mount vs)) = or_zero (last vs))
   \<and> from_number (hd (fst (AnimatedNumber (snd (animate slot_mount vs)) v)))
       = (if \<exists>u\<in>set vs. or_zero u \<noteq> 0 then or_zero (last vs) else 0)
   \<and> to_number (hd (fst (AnimatedNumber (snd (animate slot_mount vs)) v))) = or_zero v
   \<and> hasAnimated (snd (AnimatedNumber (snd (animate slot_mount vs)) v))
       = ((\<exists>u\<in>set vs. or_zero u \<noteq> 0) \<or> or_zero v \<noteq> 0)
   \<and> (\<forall>p\<in>set (tl (fst (AnimatedNumber (snd (animate slot_mount vs)) v))).
         from_number p = or_zero v \<and> to_number p = or_zero v)"
proof -
  have 1: "(\<exists>u\<in>set vs. 0 < or_zero u) = (\<exists>u\<in>set vs. or_zero u \<noteq> 0)"
    using assms(1) by (metis less_le)
  have 2: "(0 < or_zero v) = (or_zero v \<noteq> 0)"
    using assms(2) by auto
  show ?thesis
    using animate_positive_marks [of vs v] unfolding 1 2 .
qed

text \<open>
  The targets 0, 100, 250, missing, 40: from 0 to 100 on the first nonzero target, then
  from 100, from 250 and (after the missing target, read as 0) from 0.
\<close>

theorem AnimatedNumber_nonzero_marks_witness:
  "fst (animate slot_mount [Some 0, Some 100, Some 250, None, Some 40])
     = [\<lparr>from_number = 0, to_number = 0\<rparr>,
        \<lparr>from_number = 0, to_number = 100\<rparr>, \<lparr>from_number = 100, to_number = 100\<rparr>,
        \<lparr>from_number = 100, to_number = 250\<rparr>,
        \<lparr>from_number = 250, to_number = 0\<rparr>,
        \<lparr>from_number = 0, to_number = 40\<rparr>]
   \<and> hasAnimated (snd (animate slot_mount [Some 0, Some 100, Some 250]))
   \<and> previous (snd (animate slot_mount [Some 0, Some 100, Some 250])) = 250
   \<and> from_number (hd (fst (AnimatedNumber (snd (animate slot_mount [Some 0, Some 100, Some 250])) (Some 40)))) = 250"
proof -
  have "fst (animate slot_mount [Some 0, Some 100, Some 250, None, Some 40])
     = [\<lparr>from_number = 0, to_number = 0\<rparr>,
        \<lparr>from_number = 0, to_number = 100\<rparr>, \<lparr>from_number = 100, to_number = 100\<rparr>,
        \<lparr>from_number = 100, to_number = 250\<rparr>,
        \<lparr>from_number = 250, to_number = 0\<rparr>,
        \<lparr>from_number = 0, to_number = 40\<rparr>]"
    by (simp add: AnimatedNumber_def render_def effect_def fromValue_def slot_mount_def
          or_zero_def Let_def)
  then show ?thesis
    using AnimatedNumber_nonzero_marks [of "[Some 0, Some 100, Some 250]" "Some 40"]
    by (simp add: or_zero_def)
qed

section \<open>The fetch coordinator: proofs\<close>

lemma useEffect_run_inv:
  assumes "runs s = [] \<or> (\<forall>i<length (runs s). i \<noteq> current s \<longrightarrow> cancel (runs s ! i))"
  shows "runs_inv (useEffect_run s)"
  using assms
  by (auto simp: runs_inv_def useEffect_run_def cleanup_def current_def Let_def nth_append
        nth_list_update)

lemma runs_inv_mount: "runs_inv mount"
  unfolding mount_def by (rule useEffect_run_inv) simp

lemma load_resume_inv: "runs_inv s \<Longrightarrow> runs_inv (snd (load_resume i r s))"
  by (auto simp: runs_inv_def load_resume_def current_def Let_def split: sum.splits)

lemma runs_inv_step: "runs_inv s \<Longrightarrow> runs_inv (step s e)"
proof (cases e)
  case (SetMonths m)
  assume "runs_inv s"
  then have "\<forall>i<length (runs (s\<lparr>months := m\<rparr>)). i \<noteq> current (s\<lparr>months := m\<rparr>)
               \<longrightarrow> cancel (runs (s\<lparr>months := m\<rparr>) ! i)"
    by (simp add: runs_inv_def current_def)
  then show ?thesis
    using SetMonths \<open>runs_inv s\<close> by (simp add: useEffect_run_inv)
next
  case (SetSelectedBorough b)
  assume "runs_inv s"
  then have "\<forall>i<length (runs (s\<lparr>selectedBorough := b\<rparr>)). i \<noteq> current (s\<lparr>selectedBorough := b\<rparr>)
               \<longrightarrow> cancel (runs (s\<lparr>selectedBorough := b\<rparr>) ! i)"
    by (simp add: runs_inv_def current_def)
  then show ?thesis
    using SetSelectedBorough \<open>runs_inv s\<close> by (simp add: useEffect_run_inv)
next
  case (Settled i r)
  assume "runs_inv s"
  then show ?thesis using Settled by (simp add: load_resume_inv)
qed

lemma runs_inv_foldl: "runs_inv s \<Longrightarrow> runs_inv (foldl step s evs)"
  by (induction evs arbitrary: s) (simp_all add: runs_inv_step)

lemma runs_inv_exec: "runs_inv (exec mount evs)"
  unfolding exec_def by (rule runs_inv_foldl [OF runs_inv_mount])

lemma stale_load_resume:
  "runs_inv s \<Longrightarrow> i \<noteq> current s \<Longrightarrow> snd (load_resume i r s) = s"
  by (auto simp: runs_inv_def load_resume_def Let_def split: sum.splits)

lemma current_load_resume_ok:
  "runs_inv s \<Longrightarrow>
   load_resume (current s) (Inr res) s =
     (Inr (), if selectedBorough s = ''All''
              then s\<lparr>salesData := boroughs_or_empty res, neighborhoodData := [], loadingNYC := False\<rparr>
              else s\<lparr>neighborhoodData := neighborhoods_or_empty res, loadingNYC := False\<rparr>)"
  by (auto simp: runs_inv_def load_resume_def Let_def current_def)

lemma current_load_resume_fail:
  "runs_inv s \<Longrightarrow> load_resume (current s) (Inl e) s = (Inl e, s\<lparr>loadingNYC := False\<rparr>)"
  by (auto simp: runs_inv_def load_resume_def Let_def current_def)

lemma stale_exec:
  "runs_inv s \<Longrightarrow> \<forall>e\<in>set ss. \<exists>i r. e = Settled i r \<and> i \<noteq> current s \<Longrightarrow> foldl step s ss = s"
  by (induction ss) (auto simp: stale_load_resume)

lemmas app_defs = exec_def mount_def useEffect_run_def cleanup_def current_def Let_def
  load_resume_def

lemma exec_append: "exec s (xs @ ys) = exec (exec s xs) ys"
  by (simp add: exec_def)

lemma load_resume_runs: "runs (snd (load_resume i r s)) = runs s"
  by (auto simp: load_resume_def Let_def split: sum.splits)

lemma data_current_ok:
  "runs_inv s \<Longrightarrow>
   data (snd (load_resume (current s) (Inr res) s)) = response_rows (selectedBorough s) res"
  by (simp add: current_load_resume_ok data_def isAll_def response_rows_def)

text \<open>
  C1. In every state the component reaches, the latest run of the effect is the only one
  not cancelled and it carries the current selection. The settling of any other run
  changes nothing in the state; the response of the latest run becomes the displayed
  rows. So whatever stale responses arrive before and after it, in any order, the
  displayed rows are those of the response to the latest selection.
\<close>

theorem stale_response_never_applied:
  assumes "s = exec mount evs"
  shows "\<not> cancel (runs s ! current s)
       \<and> run_months (runs s ! current s) = months s
       \<and> run_borough (runs s ! current s) = selectedBorough s
       \<and> (\<forall>i r. i \<noteq> current s \<longrightarrow> step s (Settled i r) = s)
       \<and> (\<forall>res. data (step s (Settled (current s) (Inr res)))
                  = response_rows (selectedBorough s) res)
       \<and> (\<forall>ss1 ss2 res.
             (\<forall>e\<in>set (ss1 @ ss2). \<exists>i r. e = Settled i r \<and> i \<noteq> current s) \<longrightarrow>
             data (exec s (ss1 @ Settled (current s) (Inr res) # ss2))
               = response_rows (selectedBorough s) res)"
proof -
  have inv: "runs_inv s"
    using assms by (simp add: runs_inv_exec)
  have a: "\<not> cancel (runs s ! current s)" "run_months (runs s ! current s) = months s"
    "run_borough (runs s ! current s) = selectedBorough s"
    using inv by (auto simp: runs_inv_def current_def)
  have b: "\<forall>i r. i \<noteq> current s \<longrightarrow> step s (Settled i r) = s"
    using inv by (simp add: stale_load_resume)
  have c: "\<forall>res. data (step s (Settled (current s) (Inr res)))
                  = response_rows (selectedBorough s) res"
    using inv by (simp add: data_current_ok)
  have d: "data (exec s (ss1 @ Settled (current s) (Inr res) # ss2))
               = response_rows (selectedBorough s) res"
    if st: "\<forall>e\<in>set (ss1 @ ss2). \<exists>i r. e = Settled i r \<and> i \<noteq> current s"
    for ss1 ss2 res
  proof -
    let ?t = "snd (load_resume (current s) (Inr res) s)"
    have 1: "foldl step s ss1 = s"
      using inv st by (intro stale_exec) auto
    have t: "?t = (if selectedBorough s = ''All''
              then s\<lparr>salesData := boroughs_or_empty res, neighborhoodData := [], loadingNYC := False\<rparr>
              else s\<lparr>neighborhoodData := neighborhoods_or_empty res, loadingNYC := False\<rparr>)"
      using inv by (simp add: current_load_resume_ok)
    have inv': "runs_inv ?t"
      using inv by (rule load_resume_inv)
    have cur: "current ?t = current s"
      by (simp add: current_def load_resume_runs)
    have 2: "foldl step ?t ss2 = ?t"
      using inv' st by (intro stale_exec) (auto simp: cur)
    have "exec s (ss1 @ Settled (current s) (Inr res) # ss2) = ?t"
      using 1 2 by (simp add: exec_def)
    then show ?thesis
      using c by simp
  qed
  show ?thesis
    using a b c d by blast
qed

text \<open>
  Three selections W1, W2, W3 (runs 1, 2, 3), resolved in the order W2, W3, W1: the
  displayed rows are those of W3.
\<close>

theorem stale_response_never_applied_witness:
  "current (exec mount [SetMonths 1, SetMonths 3, SetMonths 6]) = 3
   \<and> data (exec (exec mount [SetMonths 1, SetMonths 3, SetMonths 6])
        ([Settled 2 (Inr (Some \<lparr>boroughs = Some [\<lparr>borough = Some ''W2'', neighborhood = None,
             count = None, median_value = None, avg_value = None\<rparr>], neighborhoods = None\<rparr>))]
         @ Settled 3 (Inr (Some \<lparr>boroughs = Some [\<lparr>borough = Some ''W3'', neighborhood = None,
             count = None, median_value = None, avg_value = None\<rparr>], neighborhoods = None\<rparr>))
         # [Settled 1 (Inr (Some \<lparr>boroughs = Some [\<lparr>borough = Some ''W1'', neighborhood = None,
             count = None, median_value = None, avg_value = None\<rparr>], neighborhoods = None\<rparr>))]))
     = [\<lparr>borough = Some ''W3'', neighborhood = None, count = None, median_value = None,
         avg_value = None\<rparr>]"
proof -
  let ?s = "exec mount [SetMonths 1, SetMonths 3, SetMonths 6]"
  have cur: "current ?s = 3"
    by (simp add: app_defs)
  have sb: "selectedBorough ?s = ''All''"
    by (simp add: app_defs)
  have "\<forall>ss1 ss2 res.
          (\<forall>e\<in>set (ss1 @ ss2). \<exists>i r. e = Settled i r \<and> i \<noteq> current ?s) \<longrightarrow>
          data (exec ?s (ss1 @ Settled (current ?s) (Inr res) # ss2))
            = response_rows (selectedBorough ?s) res"
    using stale_response_never_applied [OF refl, of "[SetMonths 1, SetMonths 3, SetMonths 6]"]
    by blast
  then have gen: "\<forall>ss1 ss2 res.
          (\<forall>e\<in>set (ss1 @ ss2). \<exists>i r. e = Settled i r \<and> i \<noteq> 3) \<longrightarrow>
          data (exec ?s (ss1 @ Settled 3 (Inr res) # ss2)) = response_rows ''All'' res"
    unfolding cur sb .
  have "data (exec ?s
        ([Settled 2 (Inr (Some \<lparr>boroughs = Some [\<lparr>borough = Some ''W2'', neighborhood = None,
             count = None, median_value = None, avg_value = None\<rparr>], neighborhoods = None\<rparr>))]
         @ Settled 3 (Inr (Some \<lparr>boroughs = Some [\<lparr>borough = Some ''W3'', neighborhood = None,
             count = None, median_value = None, avg_value = None\<rparr>], neighborhoods = None\<rparr>))
         # [Settled 1 (Inr (Some \<lparr>boroughs = Some [\<lparr>borough = Some ''W1'', neighborhood = None,
             count = None, median_value = None, avg_value = None\<rparr>], neighborhoods = None\<rparr>))]))
     = response_rows ''All'' (Some \<lparr>boroughs = Some [\<lparr>borough = Some ''W3'', neighborhood = None,
             count = None, median_value = None, avg_value = None\<rparr>], neighborhoods = None\<rparr>)"
    by (rule gen [rule_format]) auto
  then show ?thesis
    using cur by (simp add: response_rows_def boroughs_or_empty_def)
qed

text \<open>
  C8. The flag is true at mount and after every change of the selection. In every state
  the component reaches, the settling of the latest run, with a response or a failure,
  sets it to false; the settling of any other run leaves it as it is; and an event that
  takes it from true to false is the settling of the latest run.
\<close>

theorem loadingNYC_gated:
  assumes "s = exec mount evs"
  shows "loadingNYC mount
       \<and> (\<forall>m. m \<noteq> months s \<longrightarrow> loadingNYC (step s (SetMonths m)))
       \<and> (\<forall>b. b \<noteq> selectedBorough s \<longrightarrow> loadingNYC (step s (SetSelectedBorough b)))
       \<and> (\<forall>r. \<not> loadingNYC (step s (Settled (current s) r)))
       \<and> (\<forall>i r. i \<noteq> current s \<longrightarrow> loadingNYC (step s (Settled i r)) = loadingNYC s)
       \<and> (\<forall>e. loadingNYC s \<and> \<not> loadingNYC (step s e) \<longrightarrow> (\<exists>r. e = Settled (current s) r))"
proof -
  have inv: "runs_inv s"
    using assms by (simp add: runs_inv_exec)
  have 0: "loadingNYC mount"
    by (simp add: mount_def useEffect_run_def Let_def)
  have 1: "\<forall>m. m \<noteq> months s \<longrightarrow> loadingNYC (step s (SetMonths m))"
    by (simp add: useEffect_run_def Let_def)
  have 2: "\<forall>b. b \<noteq> selectedBorough s \<longrightarrow> loadingNYC (step s (SetSelectedBorough b))"
    by (simp add: useEffect_run_def Let_def)
  have 3: "\<not> loadingNYC (step s (Settled (current s) r))" for r
    using inv by (cases r) (simp_all add: current_load_resume_ok current_load_resume_fail)
  have 4: "\<forall>i r. i \<noteq> current s \<longrightarrow> loadingNYC (step s (Settled i r)) = loadingNYC s"
    using inv by (simp add: stale_load_resume)
  have 5: "\<exists>r. e = Settled (current s) r" if "loadingNYC s \<and> \<not> loadingNYC (step s e)" for e
  proof (cases e)
    case (SetMonths m)
    then show ?thesis using that by (simp add: useEffect_run_def Let_def split: if_splits)
  next
    case (SetSelectedBorough b)
    then show ?thesis using that by (simp add: useEffect_run_def Let_def split: if_splits)
  next
    case (Settled i r)
    then show ?thesis using that 4 by (cases "i = current s") auto
  qed
  show ?thesis
    using 0 1 2 3 4 5 by blast
qed

text \<open>
  After a change to 3 months (run 1): the stale run 0 leaves the flag set, run 1 clears
  it on success and on failure, and another change sets it.
\<close>

theorem loadingNYC_gated_witness:
  "loadingNYC (exec mount [SetMonths 3])
   \<and> current (exec mount [SetMonths 3]) = 1
   \<and> loadingNYC (step (exec mount [SetMonths 3]) (Settled 0 (Inr None)))
   \<and> \<not> loadingNYC (step (exec mount [SetMonths 3]) (Settled 1 (Inr None)))
   \<and> \<not> loadingNYC (step (exec mount [SetMonths 3]) (Settled 1 (Inl AxiosError)))
   \<and> loadingNYC (step (exec mount [SetMonths 3]) (SetMonths 6))"
proof -
  let ?s = "exec mount [SetMonths 3]"
  have cur: "current ?s = 1" and ld: "loadingNYC ?s" and mo: "months ?s = 3"
    by (simp_all add: app_defs)
  note g = loadingNYC_gated [OF refl, of "[SetMonths 3]"]
  have a: "\<not> loadingNYC (step ?s (Settled (current ?s) r))" for r
    using g by blast
  have b: "i \<noteq> current ?s \<Longrightarrow> loadingNYC (step ?s (Settled i r)) = loadingNYC ?s" for i r
    using g by blast
  have c: "m \<noteq> months ?s \<Longrightarrow> loadingNYC (step ?s (SetMonths m))" for m
    using g by blast
  have "loadingNYC (step ?s (Settled 0 (Inr None)))"
    using b [of 0 "Inr None"] ld unfolding cur by simp
  moreover have "\<not> loadingNYC (step ?s (Settled 1 (Inr None)))"
    using a [of "Inr None"] unfolding cur .
  moreover have "\<not> loadingNYC (step ?s (Settled 1 (Inl AxiosError)))"
    using a [of "Inl AxiosError"] unfolding cur .
  moreover have "loadingNYC (step ?s (SetMonths 6))"
    using c [of 6] unfolding mo by simp
  ultimately show ?thesis
    using cur ld by blast
qed

text \<open>
  C7 (amended). When the fetch of the latest run fails, both row collections are left as
  they were and the loading flag is cleared. The failure is not caught: \<^verbatim>\<open>load()\<close>
  has a \<^verbatim>\<open>finally\<close> and no \<^verbatim>\<open>catch\<close>, and its promise is rejected with the failure.
\<close>

theorem fetch_failure_keeps_rows:
  assumes "s = exec mount evs"
  shows "load_resume (current s) (Inl e) s = (Inl e, s\<lparr>loadingNYC := False\<rparr>)
       \<and> salesData (step s (Settled (current s) (Inl e))) = salesData s
       \<and> neighborhoodData (step s (Settled (current s) (Inl e))) = neighborhoodData s
       \<and> \<not> loadingNYC (step s (Settled (current s) (Inl e)))"
proof -
  have inv: "runs_inv s"
    using assms by (simp add: runs_inv_exec)
  show ?thesis
    by (simp add: current_load_resume_fail [OF inv])
qed

text \<open>
  Borough rows loaded, then a change to 3 months whose fetch fails: the rows stay.
\<close>

theorem fetch_failure_keeps_rows_witness:
  "salesData (step (exec mount
       [Settled 0 (Inr (Some \<lparr>boroughs = Some [\<lparr>borough = Some ''Bronx'', neighborhood = None,
          count = Some 7, median_value = Some 500, avg_value = None\<rparr>], neighborhoods = None\<rparr>)),
        SetMonths 3])
     (Settled 1 (Inl AxiosError)))
     = [\<lparr>borough = Some ''Bronx'', neighborhood = None, count = Some 7, median_value = Some 500,
         avg_value = None\<rparr>]
   \<and> \<not> loadingNYC (step (exec mount
       [Settled 0 (Inr (Some \<lparr>boroughs = Some [\<lparr>borough = Some ''Bronx'', neighborhood = None,
          count = Some 7, median_value = Some 500, avg_value = None\<rparr>], neighborhoods = None\<rparr>)),
        SetMonths 3])
     (Settled 1 (Inl AxiosError)))"
proof -
  let ?s = "exec mount
       [Settled 0 (Inr (Some \<lparr>boroughs = Some [\<lparr>borough = Some ''Bronx'', neighborhood = None,
          count = Some 7, median_value = Some 500, avg_value = None\<rparr>], neighborhoods = None\<rparr>)),
        SetMonths 3]"
  have cur: "current ?s = 1"
    by (simp add: app_defs)
  have rows: "salesData ?s = [\<lparr>borough = Some ''Bronx'', neighborhood = None, count = Some 7,
      median_value = Some 500, avg_value = None\<rparr>]"
    by (simp add: app_defs boroughs_or_empty_def)
  note g = fetch_failure_keeps_rows [OF refl, of
     "[Settled 0 (Inr (Some \<lparr>boroughs = Some [\<lparr>borough = Some ''Bronx'', neighborhood = None,
          count = Some 7, median_value = Some 500, avg_value = None\<rparr>], neighborhoods = None\<rparr>)),
        SetMonths 3]" AxiosError]
  have "salesData (step ?s (Settled (current ?s) (Inl AxiosError))) = salesData ?s"
    and "\<not> loadingNYC (step ?s (Settled (current ?s) (Inl AxiosError)))"
    using g by blast+
  then show ?thesis
    unfolding cur rows by blast
qed

text \<open>
  C7 as stated fails in its first part: at mount, a failing fetch makes \<^verbatim>\<open>load()\<close>
  end with the failure, not with a normal return.
\<close>

theorem fetch_failure_not_caught_counterexample:
  "fst (load_resume (current mount) (Inl AxiosError) mount) = Inl AxiosError
   \<and> fst (load_resume (current mount) (Inl AxiosError) mount) \<noteq> Inr ()"
  by (simp add: app_defs)

text \<open>
  C6 (amended). When the result of the latest run is applied: in the all-boroughs scope
  the borough rows are replaced and the neighborhood rows are cleared; in a borough's
  scope the neighborhood rows are replaced and the borough rows stay in the state. In
  both scopes the displayed rows are those of the response.
\<close>

theorem scope_switch_rows:
  assumes "s = exec mount evs" and "s' = step s (Settled (current s) (Inr res))"
  shows "(selectedBorough s = ''All'' \<longrightarrow>
            salesData s' = boroughs_or_empty res \<and> neighborhoodData s' = [])
       \<and> (selectedBorough s \<noteq> ''All'' \<longrightarrow>
            neighborhoodData s' = neighborhoods_or_empty res \<and> salesData s' = salesData s)
       \<and> data s' = response_rows (selectedBorough s) res"
proof -
  have inv: "runs_inv s"
    using assms by (simp add: runs_inv_exec)
  have sel: "selectedBorough s' = selectedBorough s"
    using assms(2) by (simp add: current_load_resume_ok [OF inv])
  show ?thesis
    using assms(2) sel
    by (simp add: current_load_resume_ok [OF inv] data_def isAll_def response_rows_def)
qed

text \<open>
  From Brooklyn back to all boroughs: the neighborhood rows are cleared.
\<close>

theorem scope_switch_rows_witness:
  "neighborhoodData (exec mount
       [SetSelectedBorough ''Brooklyn'',
        Settled 1 (Inr (Some \<lparr>boroughs = None, neighborhoods = Some [\<lparr>borough = None,
          neighborhood = Some ''Bushwick'', count = Some 3, median_value = Some 900,
          avg_value = None\<rparr>]\<rparr>)),
        SetSelectedBorough ''All''])
     = [\<lparr>borough = None, neighborhood = Some ''Bushwick'', count = Some 3,
         median_value = Some 900, avg_value = None\<rparr>]
   \<and> neighborhoodData (step (exec mount
       [SetSelectedBorough ''Brooklyn'',
        Settled 1 (Inr (Some \<lparr>boroughs = None, neighborhoods = Some [\<lparr>borough = None,
          neighborhood = Some ''Bushwick'', count = Some 3, median_value = Some 900,
          avg_value = None\<rparr>]\<rparr>)),
        SetSelectedBorough ''All''])
      (Settled 2 (Inr (Some \<lparr>boroughs = Some [], neighborhoods = None\<rparr>)))) = []"
proof -
  let ?s = "exec mount
       [SetSelectedBorough ''Brooklyn'',
        Settled 1 (Inr (Some \<lparr>boroughs = None, neighborhoods = Some [\<lparr>borough = None,
          neighborhood = Some ''Bushwick'', count = Some 3, median_value = Some 900,
          avg_value = None\<rparr>]\<rparr>)),
        SetSelectedBorough ''All'']"
  have cur: "current ?s = 2" and sb: "selectedBorough ?s = ''All''"
    by (simp_all add: app_defs)
  have before: "neighborhoodData ?s = [\<lparr>borough = None, neighborhood = Some ''Bushwick'',
      count = Some 3, median_value = Some 900, avg_value = None\<rparr>]"
    by (simp add: app_defs neighborhoods_or_empty_def)
  have "selectedBorough ?s = ''All'' \<longrightarrow>
          neighborhoodData (step ?s (Settled (current ?s)
             (Inr (Some \<lparr>boroughs = Some [], neighborhoods = None\<rparr>)))) = []"
    using scope_switch_rows [OF refl refl, of
       "[SetSelectedBorough ''Brooklyn'',
        Settled 1 (Inr (Some \<lparr>boroughs = None, neighborhoods = Some [\<lparr>borough = None,
          neighborhood = Some ''Bushwick'', count = Some 3, median_value = Some 900,
          avg_value = None\<rparr>]\<rparr>)),
        SetSelectedBorough ''All'']" "Some \<lparr>boroughs = Some [], neighborhoods = None\<rparr>"]
    by blast
  then have "neighborhoodData (step ?s (Settled 2
             (Inr (Some \<lparr>boroughs = Some [], neighborhoods = None\<rparr>)))) = []"
    unfolding cur using sb by blast
  then show ?thesis
    using before by blast
qed

text \<open>
  C6 as stated fails from all boroughs to a borough: after the result for Brooklyn is
  applied, the borough rows loaded before are still in the state.
\<close>

theorem scope_switch_keeps_borough_rows_counterexample:
  "selectedBorough (exec mount
       [Settled 0 (Inr (Some \<lparr>boroughs = Some [\<lparr>borough = Some ''Bronx'', neighborhood = None,
          count = Some 7, median_value = Some 500, avg_value = None\<rparr>], neighborhoods = None\<rparr>)),
        SetSelectedBorough ''Brooklyn'',
        Settled 1 (Inr (Some \<lparr>boroughs = None, neighborhoods = Some [\<lparr>borough = None,
          neighborhood = Some ''Bushwick'', count = Some 3, median_value = Some 900,
          avg_value = None\<rparr>]\<rparr>))]) = ''Brooklyn''
   \<and> salesData (exec mount
       [Settled 0 (Inr (Some \<lparr>boroughs = Some [\<lparr>borough = Some ''Bronx'', neighborhood = None,
          count = Some 7, median_value = Some 500, avg_value = None\<rparr>], neighborhoods = None\<rparr>)),
        SetSelectedBorough ''Brooklyn'',
        Settled 1 (Inr (Some \<lparr>boroughs = None, neighborhoods = Some [\<lparr>borough = None,
          neighborhood = Some ''Bushwick'', count = Some 3, median_value = Some 900,
          avg_value = None\<rparr>]\<rparr>))])
     = [\<lparr>borough = Some ''Bronx'', neighborhood = None, count = Some 7, median_value = Some 500,
         avg_value = None\<rparr>]
   \<and> salesData (exec mount
       [Settled 0 (Inr (Some \<lparr>boroughs = Some [\<lparr>borough = Some ''Bronx'', neighborhood = None,
          count = Some 7, median_value = Some 500, avg_value = None\<rparr>], neighborhoods = None\<rparr>)),
        SetSelectedBorough ''Brooklyn'',
        Settled 1 (Inr (Some \<lparr>boroughs = None, neighborhoods = Some [\<lparr>borough = None,
          neighborhood = Some ''Bushwick'', count = Some 3, median_value = Some 900,
          avg_value = None\<rparr>]\<rparr>))]) \<noteq> []"
  by (simp add: app_defs boroughs_or_empty_def neighborhoods_or_empty_def)

end
